theory Spec2Isabelle
  imports Complex_Main
begin

section \<open>Python values, declared types and errors\<close>

text \<open>
  The values that travel through \<^verbatim>\<open>trame_server/utils/typed_state.py\<close>.
  An enum member carries its class name, its member name and its \<^verbatim>\<open>.value\<close>;
  a UUID is its 128-bit integer; a Decimal is finite (sign, coefficient, exponent);
  a date is its proleptic ordinal; a time is the microsecond of the day with an
  optional utcoffset (microseconds) and a datetime is the wall-clock microsecond
  since 0001-01-01T00:00 with an optional utcoffset: \<open>None\<close> is a naive value,
  \<open>Some off\<close> an aware one. A dict is an association list in insertion order;
  a dataclass instance is its class name with its attribute values. Classes are
  identified by their \<^verbatim>\<open>__name__\<close>.
\<close>

datatype pyval =
    VNone
  | VBool bool
  | VInt int
  | VStr string
  | VEnum string string pyval
  | VUUID nat
  | VDecimal bool nat int
  | VDate int
  | VTime int "int option"
  | VDateTime int "int option"
  | VList "pyval list"
  | VDict "(pyval \<times> pyval) list"
  | VObj string "(string \<times> pyval) list"

datatype error =
    TypeError
  | ValueError
  | KeyError
  | IndexError
  | AttributeError
  | OverflowError
  | RuntimeError

text \<open>
  Declared field types. \<open>TEnum\<close> carries the class name and the members
  (name, value) in definition order; \<open>TDataclass\<close> carries the schema of a nested
  dataclass. A dataclass \<open>Field\<close> has a name, a declared type, a default and a
  default factory (\<open>None\<close> is \<^verbatim>\<open>MISSING\<close>; a factory is modelled by the value it
  returns).
\<close>

datatype pytype =
    TBool
  | TInt
  | TStr
  | TEnum string "(string \<times> pyval) list"
  | TUUID
  | TDecimal
  | TDate
  | TTime
  | TDateTime
  | TList pytype
  | TDict pytype pytype
  | TDataclass dataclass
and dataclass = Dataclass (dc_name: string) (dc_fields: "field list")
and field =
  Field (f_name: string) (f_type: pytype) (f_default: "pyval option")
    (f_default_factory: "pyval option")

section \<open>Python equality, hashing and dicts keyed by values\<close>

text \<open>
  \<^verbatim>\<open>a == b\<close>. Booleans, integers and Decimals compare by numeric value; an enum
  member equals only itself; a date is never equal to a datetime; a naive time or
  datetime is never equal to an aware one, and two aware ones are equal when they
  denote the same instant; lists compare element by element; dicts compare as
  sets of items; dataclass instances of one class compare their attributes in order.
\<close>

fun py_num :: "pyval \<Rightarrow> rat option" where
  "py_num (VBool b) = Some (if b then 1 else 0)"
| "py_num (VInt i) = Some (of_int i)"
| "py_num (VDecimal s c e) =
     Some ((if s then - 1 else 1) * of_nat c *
           (if 0 \<le> e then 10 ^ nat e else 1 / 10 ^ nat (- e)))"
| "py_num _ = None"

definition num_eq :: "pyval \<Rightarrow> pyval \<Rightarrow> bool" where
  "num_eq a b = (py_num b \<noteq> None \<and> py_num a = py_num b)"

fun aware_eq :: "int \<Rightarrow> int option \<Rightarrow> int \<Rightarrow> int option \<Rightarrow> bool" where
  "aware_eq t None t' None = (t = t')"
| "aware_eq t (Some off) t' (Some off') = (t - off = t' - off')"
| "aware_eq t _ t' _ = False"

fun time_eq :: "int \<Rightarrow> int option \<Rightarrow> pyval \<Rightarrow> bool" where
  "time_eq t off (VTime t' off') = aware_eq t off t' off'"
| "time_eq t off _ = False"

fun datetime_eq :: "int \<Rightarrow> int option \<Rightarrow> pyval \<Rightarrow> bool" where
  "datetime_eq t off (VDateTime t' off') = aware_eq t off t' off'"
| "datetime_eq t off _ = False"

fun enum_eq :: "string \<Rightarrow> string \<Rightarrow> pyval \<Rightarrow> bool" where
  "enum_eq c n (VEnum c' n' v') = (c = c' \<and> n = n')"
| "enum_eq c n _ = False"

fun list_items :: "pyval \<Rightarrow> pyval list option" where
  "list_items (VList ys) = Some ys"
| "list_items _ = None"

fun dict_items :: "pyval \<Rightarrow> (pyval \<times> pyval) list option" where
  "dict_items (VDict ys) = Some ys"
| "dict_items _ = None"

fun obj_items :: "pyval \<Rightarrow> (string \<times> (string \<times> pyval) list) option" where
  "obj_items (VObj c ys) = Some (c, ys)"
| "obj_items _ = None"

function (sequential) py_eq :: "pyval \<Rightarrow> pyval \<Rightarrow> bool"
and py_eq_list :: "pyval list \<Rightarrow> pyval list \<Rightarrow> bool"
and py_eq_attrs :: "(string \<times> pyval) list \<Rightarrow> (string \<times> pyval) list \<Rightarrow> bool"
and py_dict_sub :: "(pyval \<times> pyval) list \<Rightarrow> (pyval \<times> pyval) list \<Rightarrow> bool"
and py_dict_has :: "pyval \<Rightarrow> pyval \<Rightarrow> (pyval \<times> pyval) list \<Rightarrow> bool"
where
  "py_eq VNone b = (b = VNone)"
| "py_eq (VBool x) b = num_eq (VBool x) b"
| "py_eq (VInt x) b = num_eq (VInt x) b"
| "py_eq (VDecimal s c e) b = num_eq (VDecimal s c e) b"
| "py_eq (VStr s) b = (b = VStr s)"
| "py_eq (VEnum c n v) b = enum_eq c n b"
| "py_eq (VUUID u) b = (b = VUUID u)"
| "py_eq (VDate d) b = (b = VDate d)"
| "py_eq (VTime t off) b = time_eq t off b"
| "py_eq (VDateTime t off) b = datetime_eq t off b"
| "py_eq (VList xs) b =
     (case list_items b of None \<Rightarrow> False | Some ys \<Rightarrow> py_eq_list xs ys)"
| "py_eq (VDict xs) b =
     (case dict_items b of None \<Rightarrow> False
      | Some ys \<Rightarrow> length xs = length ys \<and> py_dict_sub xs ys)"
| "py_eq (VObj c xs) b =
     (case obj_items b of None \<Rightarrow> False
      | Some (c', ys) \<Rightarrow> c = c' \<and> py_eq_attrs xs ys)"
| "py_eq_list [] ys = (ys = [])"
| "py_eq_list (x # xs) ys =
     (case ys of [] \<Rightarrow> False | y # ys' \<Rightarrow> py_eq x y \<and> py_eq_list xs ys')"
| "py_eq_attrs [] ys = (ys = [])"
| "py_eq_attrs ((n, x) # xs) ys =
     (case ys of [] \<Rightarrow> False | (n', y) # ys' \<Rightarrow> n = n' \<and> py_eq x y \<and> py_eq_attrs xs ys')"
| "py_dict_sub [] ys = True"
| "py_dict_sub ((k, v) # xs) ys = (py_dict_has k v ys \<and> py_dict_sub xs ys)"
| "py_dict_has k v [] = False"
| "py_dict_has k v ((k', v') # ys) =
     (if py_eq k k' then py_eq v v' else py_dict_has k v ys)"
  by pat_completeness auto
termination
  by (relation "measures
        [\<lambda>x. case x of
           Inl (Inl (a, b)) \<Rightarrow> 2 * size a
         | Inl (Inr (xs, ys)) \<Rightarrow> 2 * size_list size xs + 1
         | Inr (Inl (xs, ys)) \<Rightarrow> 2 * size_list (size_prod (\<lambda>_. 0) size) xs + 1
         | Inr (Inr (Inl (xs, ys))) \<Rightarrow> 2 * size_list (size_prod size size) xs + 1
         | Inr (Inr (Inr (k, v, ys))) \<Rightarrow> 2 * (size k + size v) + 1,
         \<lambda>x. case x of Inr (Inr (Inr (k, v, ys))) \<Rightarrow> length ys | _ \<Rightarrow> 0]") auto

text \<open>
  Lists, dicts and instances of a default (non-frozen) dataclass are unhashable.
\<close>

fun hashable :: "pyval \<Rightarrow> bool" where
  "hashable (VList xs) = False"
| "hashable (VDict xs) = False"
| "hashable (VObj c xs) = False"
| "hashable _ = True"

text \<open>
  One step of a dict comprehension \<^verbatim>\<open>{k: v for ...}\<close>: an unhashable key raises
  \<^verbatim>\<open>TypeError\<close>; a key equal to one already present keeps the old key object and
  takes the new value; a new key goes to the end.
\<close>

fun pydict_insert :: "(pyval \<times> pyval) list \<Rightarrow> pyval \<Rightarrow> pyval \<Rightarrow> (pyval \<times> pyval) list" where
  "pydict_insert [] k v = [(k, v)]"
| "pydict_insert ((k', v') # d) k v =
     (if py_eq k' k then (k', v) # d else (k', v') # pydict_insert d k v)"

definition pydict_set ::
  "(pyval \<times> pyval) list \<Rightarrow> pyval \<Rightarrow> pyval \<Rightarrow> error + (pyval \<times> pyval) list" where
  "pydict_set d k v = (if hashable k then Inr (pydict_insert d k v) else Inl TypeError)"

section \<open>The standard library at the boundary of the codec\<close>

text \<open>
  The codec calls \<^verbatim>\<open>str(obj)\<close>, \<^verbatim>\<open>obj.isoformat()\<close>,
  \<^verbatim>\<open>obj_type.fromisoformat(obj)\<close>, \<^verbatim>\<open>obj_type(obj)\<close> and
  \<^verbatim>\<open>obj.astimezone(timezone.utc)\<close>. The string formats and the parsers of the
  standard library are parameters of the model (\<open>pylib\<close>), as is the utcoffset
  of the local zone that \<^verbatim>\<open>astimezone\<close> assumes for a naive datetime.
\<close>

record pylib =
  py_str :: "pyval \<Rightarrow> string"
  py_isoformat :: "pyval \<Rightarrow> string"
  py_fromisoformat :: "pytype \<Rightarrow> pyval \<Rightarrow> error + pyval"
  py_call :: "pytype \<Rightarrow> pyval \<Rightarrow> error + pyval"
  py_local_utcoffset :: "int \<Rightarrow> error + int"

text \<open>
  \<^verbatim>\<open>datetime.max\<close> is the last microsecond of 9999-12-31, day 3652059.
\<close>

definition DATETIME_RANGE :: int where
  "DATETIME_RANGE = 3652059 * 86400000000"

definition astimezone_utc :: "pylib \<Rightarrow> int \<Rightarrow> int option \<Rightarrow> error + pyval" where
  "astimezone_utc lib t tz =
     (case (case tz of Some off \<Rightarrow> Inr off | None \<Rightarrow> py_local_utcoffset lib t) of
        Inl e \<Rightarrow> Inl e
      | Inr off \<Rightarrow>
          (if 0 \<le> t - off \<and> t - off < DATETIME_RANGE
           then Inr (VDateTime (t - off) (Some 0)) else Inl OverflowError))"

text \<open>
  \<^verbatim>\<open>EnumClass(obj)\<close>: a member of the class is returned as it is; otherwise the first
  member whose value equals \<^verbatim>\<open>obj\<close>; otherwise \<^verbatim>\<open>ValueError\<close>.
\<close>

fun enum_lookup :: "string \<Rightarrow> (string \<times> pyval) list \<Rightarrow> pyval \<Rightarrow> error + pyval" where
  "enum_lookup c [] obj = Inl ValueError"
| "enum_lookup c ((n, v) # ms) obj =
     (if py_eq v obj then Inr (VEnum c n v) else enum_lookup c ms obj)"

definition enum_call :: "string \<Rightarrow> (string \<times> pyval) list \<Rightarrow> pyval \<Rightarrow> error + pyval" where
  "enum_call c ms obj =
     (case obj of
        VEnum c' n v \<Rightarrow> (if c' = c then Inr obj else enum_lookup c ms obj)
      | _ \<Rightarrow> enum_lookup c ms obj)"

section \<open>The codec\<close>

record encoder =
  enc_encode :: "pyval \<Rightarrow> error + pyval"
  enc_decode :: "pyval \<Rightarrow> pytype \<Rightarrow> error + pyval"

text \<open>\<^verbatim>\<open>DefaultEncoderDecoder\<close>: the \<^verbatim>\<open>isinstance\<close> chain of \<^verbatim>\<open>encode\<close> in its order.\<close>

fun DefaultEncoderDecoder_encode :: "pylib \<Rightarrow> pyval \<Rightarrow> error + pyval" where
  "DefaultEncoderDecoder_encode lib (VUUID u) = Inr (VStr (py_str lib (VUUID u)))"
| "DefaultEncoderDecoder_encode lib (VEnum c n v) = Inr v"
| "DefaultEncoderDecoder_encode lib (VDecimal s c e) = Inr (VStr (py_str lib (VDecimal s c e)))"
| "DefaultEncoderDecoder_encode lib (VDateTime t tz) =
     (case astimezone_utc lib t tz of
        Inl e \<Rightarrow> Inl e
      | Inr u \<Rightarrow> Inr (VStr (py_isoformat lib u)))"
| "DefaultEncoderDecoder_encode lib (VDate d) = Inr (VStr (py_isoformat lib (VDate d)))"
| "DefaultEncoderDecoder_encode lib (VTime t tz) = Inr (VStr (py_isoformat lib (VTime t tz)))"
| "DefaultEncoderDecoder_encode lib obj = Inr obj"

text \<open>
  \<^verbatim>\<open>decode\<close>: the three \<^verbatim>\<open>issubclass\<close> tests, then \<^verbatim>\<open>obj_type(obj)\<close>, which for an
  enum class is the lookup by value and for every other type is the library's
  constructor.
\<close>

fun DefaultEncoderDecoder_decode :: "pylib \<Rightarrow> pyval \<Rightarrow> pytype \<Rightarrow> error + pyval" where
  "DefaultEncoderDecoder_decode lib obj TDateTime = py_fromisoformat lib TDateTime obj"
| "DefaultEncoderDecoder_decode lib obj TDate = py_fromisoformat lib TDate obj"
| "DefaultEncoderDecoder_decode lib obj TTime = py_fromisoformat lib TTime obj"
| "DefaultEncoderDecoder_decode lib obj (TEnum c ms) = enum_call c ms obj"
| "DefaultEncoderDecoder_decode lib obj obj_type = py_call lib obj_type obj"

definition DefaultEncoderDecoder :: "pylib \<Rightarrow> encoder" where
  "DefaultEncoderDecoder lib =
     \<lparr>enc_encode = DefaultEncoderDecoder_encode lib,
      enc_decode = DefaultEncoderDecoder_decode lib\<rparr>"

text \<open>
  \<^verbatim>\<open>CollectionEncoderDecoder\<close>. The two \<^verbatim>\<open>for encoder in self._encoders\<close> loops
  catch \<^verbatim>\<open>TypeError\<close> only and end with \<^verbatim>\<open>return obj\<close>.
\<close>

fun try_encode :: "encoder list \<Rightarrow> pyval \<Rightarrow> error + pyval" where
  "try_encode [] obj = Inr obj"
| "try_encode (encoder # encoders) obj =
     (case enc_encode encoder obj of
        Inl e \<Rightarrow> (if e = TypeError then try_encode encoders obj else Inl e)
      | Inr v \<Rightarrow> Inr v)"

fun try_decode :: "encoder list \<Rightarrow> pyval \<Rightarrow> pytype \<Rightarrow> error + pyval" where
  "try_decode [] obj obj_type = Inr obj"
| "try_decode (encoder # encoders) obj obj_type =
     (case enc_decode encoder obj obj_type of
        Inl e \<Rightarrow> (if e = TypeError then try_decode encoders obj obj_type else Inl e)
      | Inr v \<Rightarrow> Inr v)"

fun get_args :: "pytype \<Rightarrow> pytype list" where
  "get_args (TList t) = [t]"
| "get_args (TDict k v) = [k, v]"
| "get_args _ = []"

function (sequential) CollectionEncoderDecoder_encode :: "encoder list \<Rightarrow> pyval \<Rightarrow> error + pyval"
and encode_list :: "encoder list \<Rightarrow> pyval list \<Rightarrow> error + pyval list"
and encode_items ::
  "encoder list \<Rightarrow> (pyval \<times> pyval) list \<Rightarrow> (pyval \<times> pyval) list
     \<Rightarrow> error + (pyval \<times> pyval) list"
where
  "CollectionEncoderDecoder_encode encoders (VDict items) =
     (case encode_items encoders items [] of Inl e \<Rightarrow> Inl e | Inr d \<Rightarrow> Inr (VDict d))"
| "CollectionEncoderDecoder_encode encoders (VList xs) =
     (case encode_list encoders xs of Inl e \<Rightarrow> Inl e | Inr ys \<Rightarrow> Inr (VList ys))"
| "CollectionEncoderDecoder_encode encoders obj = try_encode encoders obj"
| "encode_list encoders [] = Inr []"
| "encode_list encoders (x # xs) =
     (case CollectionEncoderDecoder_encode encoders x of
        Inl e \<Rightarrow> Inl e
      | Inr y \<Rightarrow>
          (case encode_list encoders xs of Inl e \<Rightarrow> Inl e | Inr ys \<Rightarrow> Inr (y # ys)))"
| "encode_items encoders [] acc = Inr acc"
| "encode_items encoders ((key, val) # items) acc =
     (case CollectionEncoderDecoder_encode encoders key of
        Inl e \<Rightarrow> Inl e
      | Inr k \<Rightarrow>
          (case CollectionEncoderDecoder_encode encoders val of
             Inl e \<Rightarrow> Inl e
           | Inr v \<Rightarrow>
               (case pydict_set acc k v of
                  Inl e \<Rightarrow> Inl e
                | Inr acc' \<Rightarrow> encode_items encoders items acc')))"
  by pat_completeness auto
termination
  by (relation "measure (\<lambda>x. case x of
         Inl (encoders, obj) \<Rightarrow> size obj
       | Inr (Inl (encoders, xs)) \<Rightarrow> size_list size xs
       | Inr (Inr (encoders, items, acc)) \<Rightarrow> size_list (size_prod size size) items)") auto

function (sequential) CollectionEncoderDecoder_decode ::
  "encoder list \<Rightarrow> pyval \<Rightarrow> pytype \<Rightarrow> error + pyval"
and decode_list :: "encoder list \<Rightarrow> pyval list \<Rightarrow> pytype \<Rightarrow> error + pyval list"
and decode_items ::
  "encoder list \<Rightarrow> (pyval \<times> pyval) list \<Rightarrow> pytype \<Rightarrow> pytype \<Rightarrow> (pyval \<times> pyval) list
     \<Rightarrow> error + (pyval \<times> pyval) list"
where
  "CollectionEncoderDecoder_decode encoders (VDict items) obj_type =
     (case get_args obj_type of
        [key_type, value_type] \<Rightarrow>
          (case decode_items encoders items key_type value_type [] of
             Inl e \<Rightarrow> Inl e
           | Inr d \<Rightarrow> Inr (VDict d))
      | _ \<Rightarrow> Inl ValueError)"
| "CollectionEncoderDecoder_decode encoders (VList xs) obj_type =
     (case get_args obj_type of
        [] \<Rightarrow> Inl IndexError
      | value_type # _ \<Rightarrow>
          (case decode_list encoders xs value_type of
             Inl e \<Rightarrow> Inl e
           | Inr ys \<Rightarrow> Inr (VList ys)))"
| "CollectionEncoderDecoder_decode encoders obj obj_type = try_decode encoders obj obj_type"
| "decode_list encoders [] value_type = Inr []"
| "decode_list encoders (x # xs) value_type =
     (case CollectionEncoderDecoder_decode encoders x value_type of
        Inl e \<Rightarrow> Inl e
      | Inr y \<Rightarrow>
          (case decode_list encoders xs value_type of
             Inl e \<Rightarrow> Inl e
           | Inr ys \<Rightarrow> Inr (y # ys)))"
| "decode_items encoders [] key_type value_type acc = Inr acc"
| "decode_items encoders ((key, val) # items) key_type value_type acc =
     (case CollectionEncoderDecoder_decode encoders key key_type of
        Inl e \<Rightarrow> Inl e
      | Inr k \<Rightarrow>
          (case CollectionEncoderDecoder_decode encoders val value_type of
             Inl e \<Rightarrow> Inl e
           | Inr v \<Rightarrow>
               (case pydict_set acc k v of
                  Inl e \<Rightarrow> Inl e
                | Inr acc' \<Rightarrow> decode_items encoders items key_type value_type acc')))"
  by pat_completeness auto
termination
  by (relation "measure (\<lambda>x. case x of
         Inl (encoders, obj, obj_type) \<Rightarrow> size obj
       | Inr (Inl (encoders, xs, value_type)) \<Rightarrow> size_list size xs
       | Inr (Inr (encoders, items, rest)) \<Rightarrow> size_list (size_prod size size) items)") auto

definition CollectionEncoderDecoder :: "encoder list \<Rightarrow> encoder" where
  "CollectionEncoderDecoder encoders =
     \<lparr>enc_encode = CollectionEncoderDecoder_encode encoders,
      enc_decode = CollectionEncoderDecoder_decode encoders\<rparr>"

definition default_encoder :: "pylib \<Rightarrow> encoder" where
  "default_encoder lib = CollectionEncoderDecoder [DefaultEncoderDecoder lib]"

section \<open>Insertion-ordered dicts with string keys\<close>

text \<open>
  \<^verbatim>\<open>d[k] = v\<close> on a Python dict: an existing key keeps its position and takes the
  new value, a new key goes to the end. \<^verbatim>\<open>d.update(**e)\<close> stores the items of
  \<^verbatim>\<open>e\<close> in order.
\<close>

fun dict_set :: "('k \<times> 'v) list \<Rightarrow> 'k \<Rightarrow> 'v \<Rightarrow> ('k \<times> 'v) list" where
  "dict_set [] k v = [(k, v)]"
| "dict_set ((k', v') # d) k v =
     (if k' = k then (k, v) # d else (k', v') # dict_set d k v)"

fun dict_update :: "('k \<times> 'v) list \<Rightarrow> ('k \<times> 'v) list \<Rightarrow> ('k \<times> 'v) list" where
  "dict_update d [] = d"
| "dict_update d ((k, v) # e) = dict_update (dict_set d k v) e"

definition dict_keys :: "('k \<times> 'v) list \<Rightarrow> 'k list" where
  "dict_keys d = map fst d"

definition dict_get :: "('k \<times> 'v) list \<Rightarrow> 'k \<Rightarrow> error + 'v" where
  "dict_get d k = (case map_of d k of None \<Rightarrow> Inl KeyError | Some v \<Rightarrow> Inr v)"

section \<open>Proxy objects\<close>

text \<open>
  A proxy instance is the object \<^verbatim>\<open>_build_proxy_cls\<close> returns: the name of its
  generated class, the class attributes \<^verbatim>\<open>__state_proxy_dataclass_type\<close> and
  \<^verbatim>\<open>__state_proxy_state_id\<close>, the field attributes of the \<^verbatim>\<open>namespace\<close> dict and
  \<^verbatim>\<open>inner_field_dict\<close>. The last statement of \<^verbatim>\<open>_build_proxy_cls\<close> stores the
  instance in its own dict; the datatype holds the dict as it is just before that
  statement (\<open>proxy_inner_dict\<close>) and \<open>get_field_proxy_dict\<close> below adds the entry.
  An attribute is a leaf descriptor (\<^verbatim>\<open>ProxyField\<close> or \<^verbatim>\<open>NameField\<close>) or a nested
  proxy instance.
\<close>

datatype 'l proxy =
  Proxy (proxy_cls_name: string) (proxy_dataclass_type: dataclass)
    (proxy_state_id: string) (proxy_namespace: "(string \<times> 'l attr) list")
    (proxy_inner_dict: "(string \<times> 'l attr) list")
and 'l attr = LeafField 'l | SubProxy "'l proxy"

type_synonym 'l field_dict = "(string \<times> 'l attr) list"

fun get_state_id :: "'l attr \<Rightarrow> string \<Rightarrow> string" where
  "get_state_id (SubProxy p) dflt = proxy_state_id p"
| "get_state_id (LeafField l) dflt = dflt"


definition get_field_proxy_dict :: "'l proxy \<Rightarrow> 'l field_dict" where
  "get_field_proxy_dict p =
     dict_set (proxy_inner_dict p) (proxy_state_id p) (SubProxy p)"

section \<open>The proxy builder\<close>

text \<open>
  \<^verbatim>\<open>is_dataclass(f.type)\<close>, together with the class when the test holds.
\<close>

fun is_dataclass :: "pytype \<Rightarrow> dataclass option" where
  "is_dataclass (TDataclass dc) = Some dc"
| "is_dataclass _ = None"

text \<open>
  \<^verbatim>\<open>_build_proxy_cls\<close>. The handler may change the store and may raise, so the
  builder threads a state \<open>'s\<close> and returns it with the outcome. The parent's dict
  \<^verbatim>\<open>proxy_field_dict\<close> is passed in and returned updated (\<open>None\<close> at the root).
  \<open>build_fields\<close> is the loop over \<^verbatim>\<open>fields(dataclass_type)\<close>, carrying
  \<^verbatim>\<open>namespace\<close> and \<^verbatim>\<open>inner_field_dict\<close>.
\<close>

type_synonym ('s, 'l) handler = "string \<Rightarrow> field \<Rightarrow> 's \<Rightarrow> 's \<times> (error + 'l)"

function (sequential) build_proxy_cls ::
  "dataclass \<Rightarrow> string \<Rightarrow> ('s, 'l) handler \<Rightarrow> string \<Rightarrow> 'l field_dict option \<Rightarrow> 's
     \<Rightarrow> 's \<times> (error + 'l proxy \<times> 'l field_dict option)"
and build_fields ::
  "field list \<Rightarrow> string \<Rightarrow> ('s, 'l) handler \<Rightarrow> string \<Rightarrow> 'l field_dict \<Rightarrow> 'l field_dict \<Rightarrow> 's
     \<Rightarrow> 's \<times> (error + 'l field_dict \<times> 'l field_dict)"
where
  "build_proxy_cls (Dataclass class_name fs) prefix handler cls_suffix proxy_field_dict st =
     (let prefix' = (if prefix \<noteq> [] then prefix @ ''__'' @ class_name else class_name)
      in case build_fields fs prefix' handler cls_suffix [] [] st of
           (st', Inl e) \<Rightarrow> (st', Inl e)
         | (st', Inr (namespace, inner_field_dict)) \<Rightarrow>
             (st', Inr (Proxy (class_name @ cls_suffix) (Dataclass class_name fs) prefix'
                          namespace inner_field_dict,
                        map_option (\<lambda>d. dict_update d inner_field_dict) proxy_field_dict)))"
| "build_fields [] prefix handler cls_suffix namespace inner_field_dict st =
     (st, Inr (namespace, inner_field_dict))"
| "build_fields (f # fs) prefix handler cls_suffix namespace inner_field_dict st =
     (let state_id = prefix @ ''__'' @ f_name f
      in case is_dataclass (f_type f) of
           Some dc \<Rightarrow>
             (case build_proxy_cls dc state_id handler cls_suffix (Some inner_field_dict) st of
                (st', Inl e) \<Rightarrow> (st', Inl e)
              | (st', Inr (p, d)) \<Rightarrow>
                  build_fields fs prefix handler cls_suffix
                    (dict_set namespace (f_name f) (SubProxy p))
                    (dict_set (case d of Some d' \<Rightarrow> d' | None \<Rightarrow> inner_field_dict)
                       (get_state_id (SubProxy p) state_id) (SubProxy p))
                    st')
         | None \<Rightarrow>
             (case handler state_id f st of
                (st', Inl e) \<Rightarrow> (st', Inl e)
              | (st', Inr l) \<Rightarrow>
                  build_fields fs prefix handler cls_suffix
                    (dict_set namespace (f_name f) (LeafField l))
                    (dict_set inner_field_dict (get_state_id (LeafField l) state_id) (LeafField l))
                    st'))"
  by pat_completeness auto
termination
proof -
  have sz: "size dc < Suc (size f)" if "is_dataclass (f_type f) = Some dc" for f dc
    using that by (cases f; cases "f_type f") auto
  show ?thesis
    by (relation "measure (\<lambda>x. case x of
           Inl (dc, rest) \<Rightarrow> size dc
         | Inr (fs, rest) \<Rightarrow> size_list size fs)")
       (auto dest: sz)
qed

section \<open>The store\<close>

text \<open>
  Modelled from the spec: the store (\<^verbatim>\<open>trame_server.state.State\<close>) is not among the
  source files. The spec gives it \<^verbatim>\<open>get(key) -> primitive | missing\<close>,
  \<^verbatim>\<open>set(key, primitive)\<close> and \<^verbatim>\<open>set_default(key, primitive)\<close>, "no-op if key already
  present". A store is a finite map from keys to values; reading a missing key
  gives \<^verbatim>\<open>None\<close>.
\<close>

type_synonym store = "string \<Rightarrow> pyval option"



definition state_setdefault :: "store \<Rightarrow> string \<Rightarrow> pyval \<Rightarrow> store" where
  "state_setdefault state key v = (if state key = None then state(key \<mapsto> v) else state)"

section \<open>Leaf descriptors\<close>

text \<open>
  \<^verbatim>\<open>ProxyField\<close>. The object keeps references to the store and to the encoder; the
  model passes both to its methods. \<^verbatim>\<open>__init__\<close> writes the encoded default with
  \<^verbatim>\<open>setdefault\<close>; the encoder may raise before the store is touched.
\<close>

record proxy_field =
  pf_state_id :: string
  pf_name :: string
  pf_type :: pytype
  pf_default :: "pyval option"

definition ProxyField_init ::
  "store \<Rightarrow> string \<Rightarrow> string \<Rightarrow> pytype \<Rightarrow> pyval option \<Rightarrow> pyval option \<Rightarrow> encoder
     \<Rightarrow> store \<times> (error + proxy_field)" where
  "ProxyField_init state state_id name field_type dflt default_factory state_encoder =
     (let self = \<lparr>pf_state_id = state_id, pf_name = name, pf_type = field_type,
                   pf_default = dflt\<rparr>;
          default_value = (if dflt = None \<and> default_factory \<noteq> None then default_factory else dflt)
      in case default_value of
           None \<Rightarrow> (state, Inr self)
         | Some v \<Rightarrow>
             (case enc_encode state_encoder v of
                Inl e \<Rightarrow> (state, Inl e)
              | Inr ev \<Rightarrow> (state_setdefault state state_id ev, Inr self)))"



text \<open>\<^verbatim>\<open>NameField\<close>: \<^verbatim>\<open>__get__\<close> returns the state id.\<close>

datatype name_field = NameField (nf_state_id: string)

section \<open>The two proxies\<close>

definition state_proxy ::
  "pylib \<Rightarrow> dataclass \<Rightarrow> store \<Rightarrow> string \<Rightarrow> encoder option
     \<Rightarrow> store \<times> (error + proxy_field proxy)" where
  "state_proxy lib dataclass_type state state_namespace state_encoder =
     (let enc = (case state_encoder of None \<Rightarrow> default_encoder lib | Some e \<Rightarrow> e);
          handler = (\<lambda>state_id f st.
            ProxyField_init st state_id (f_name f) (f_type f) (f_default f)
              (f_default_factory f) enc)
      in case build_proxy_cls dataclass_type state_namespace handler ''__Proxy'' None state of
           (st', Inl e) \<Rightarrow> (st', Inl e)
         | (st', Inr (p, d)) \<Rightarrow> (st', Inr p))"

definition state_names_proxy :: "dataclass \<Rightarrow> string \<Rightarrow> error + name_field proxy" where
  "state_names_proxy dataclass_type state_namespace =
     (case build_proxy_cls dataclass_type state_namespace
             (\<lambda>state_id f st. (st, Inr (NameField state_id))) ''__ProxyName'' None () of
        (u, Inl e) \<Rightarrow> Inl e
      | (u, Inr (p, d)) \<Rightarrow> Inr p)"

definition state_proxies ::
  "pylib \<Rightarrow> dataclass \<Rightarrow> store \<Rightarrow> string \<Rightarrow> encoder option
     \<Rightarrow> store \<times> (error + proxy_field proxy \<times> name_field proxy)" where
  "state_proxies lib dataclass_type state state_namespace state_encoder =
     (case state_proxy lib dataclass_type state state_namespace state_encoder of
        (st', Inl e) \<Rightarrow> (st', Inl e)
      | (st', Inr data) \<Rightarrow>
          (case state_names_proxy dataclass_type state_namespace of
             Inl e \<Rightarrow> (st', Inl e)
           | Inr name \<Rightarrow> (st', Inr (data, name))))"

section \<open>Attribute access and \<^verbatim>\<open>from_dataclass\<close>\<close>










section \<open>The binder\<close>

text \<open>
  A binding token is a string (what a \<^verbatim>\<open>NameField\<close> returns) or a proxy instance.
\<close>

datatype 'l key = StrKey string | ProxyKey "'l proxy"



fun react_keys_loop :: "'l key list \<Rightarrow> string list \<Rightarrow> string list" where
  "react_keys_loop [] react_keys = react_keys"
| "react_keys_loop (ProxyKey p # keys) react_keys =
     react_keys_loop keys (react_keys @ dict_keys (get_field_proxy_dict p))"
| "react_keys_loop (StrKey s # keys) react_keys = react_keys_loop keys (react_keys @ [s])"

definition get_reactive_state_id_keys :: "'l key list \<Rightarrow> string list" where
  "get_reactive_state_id_keys keys = react_keys_loop keys []"










section \<open>What a schema determines\<close>

text \<open>
  The synthetic key of a record node and the derived key of a field, as the code
  computes them: an empty prefix contributes nothing, not even the separator.
\<close>

definition node_key :: "string \<Rightarrow> string \<Rightarrow> string" where
  "node_key prefix type_name = (if prefix \<noteq> [] then prefix @ ''__'' @ type_name else type_name)"

definition derived_key :: "string \<Rightarrow> string \<Rightarrow> string \<Rightarrow> string" where
  "derived_key prefix type_name field_name = node_key prefix type_name @ ''__'' @ field_name"

text \<open>The formula as the specification words it.\<close>

definition spec_derived_key :: "string \<Rightarrow> string \<Rightarrow> string \<Rightarrow> string" where
  "spec_derived_key prefix type_name field_name =
     prefix @ ''__'' @ type_name @ ''__'' @ field_name"

text \<open>
  The builder run with a handler that has no effect and cannot raise, returning
  \<open>mk state_id f\<close> for each leaf. Both handlers of the source return on success an
  object that depends on the state id and the field only, so every successful run
  of \<open>build_proxy_cls\<close> yields this tree (lemma \<open>build_proxy_cls_pure\<close> below).
\<close>

function (sequential) proxy_of ::
  "(string \<Rightarrow> field \<Rightarrow> 'l) \<Rightarrow> string \<Rightarrow> dataclass \<Rightarrow> string \<Rightarrow> 'l proxy"
and fields_of ::
  "(string \<Rightarrow> field \<Rightarrow> 'l) \<Rightarrow> string \<Rightarrow> field list \<Rightarrow> string \<Rightarrow> 'l field_dict \<Rightarrow> 'l field_dict
     \<Rightarrow> 'l field_dict \<times> 'l field_dict"
where
  "proxy_of mk cls_suffix (Dataclass class_name fs) prefix =
     (let prefix' = node_key prefix class_name
      in case fields_of mk cls_suffix fs prefix' [] [] of
           (namespace, inner_field_dict) \<Rightarrow>
             Proxy (class_name @ cls_suffix) (Dataclass class_name fs) prefix'
               namespace inner_field_dict)"
| "fields_of mk cls_suffix [] prefix namespace inner_field_dict = (namespace, inner_field_dict)"
| "fields_of mk cls_suffix (f # fs) prefix namespace inner_field_dict =
     (let state_id = prefix @ ''__'' @ f_name f
      in case is_dataclass (f_type f) of
           Some dc \<Rightarrow>
             (let p = proxy_of mk cls_suffix dc state_id
              in fields_of mk cls_suffix fs prefix
                   (dict_set namespace (f_name f) (SubProxy p))
                   (dict_set (dict_update inner_field_dict (proxy_inner_dict p))
                      (proxy_state_id p) (SubProxy p)))
         | None \<Rightarrow>
             (let l = mk state_id f
              in fields_of mk cls_suffix fs prefix
                   (dict_set namespace (f_name f) (LeafField l))
                   (dict_set inner_field_dict state_id (LeafField l))))"
  by pat_completeness auto
termination
proof -
  have sz: "size dc < Suc (size f)" if "is_dataclass (f_type f) = Some dc" for f dc
    using that by (cases f; cases "f_type f") auto
  show ?thesis
    by (relation "measure (\<lambda>x. case x of
           Inl (mk, suffix, dc, rest) \<Rightarrow> size dc
         | Inr (mk, suffix, fs, rest) \<Rightarrow> size_list size fs)")
       (auto dest: sz)
qed

definition mk_proxy_field :: "string \<Rightarrow> field \<Rightarrow> proxy_field" where
  "mk_proxy_field state_id f =
     \<lparr>pf_state_id = state_id, pf_name = f_name f, pf_type = f_type f,
      pf_default = f_default f\<rparr>"

definition mk_name_field :: "string \<Rightarrow> field \<Rightarrow> name_field" where
  "mk_name_field state_id f = NameField state_id"

text \<open>
  The keys of a schema in post-order: for each field in declaration order the key
  of a leaf, or the keys of a nested record; then the record's own key.
\<close>

function (sequential) schema_keys :: "dataclass \<Rightarrow> string \<Rightarrow> string list"
and fields_keys :: "string \<Rightarrow> field list \<Rightarrow> string list"
where
  "schema_keys (Dataclass class_name fs) prefix =
     fields_keys (node_key prefix class_name) fs @ [node_key prefix class_name]"
| "fields_keys prefix [] = []"
| "fields_keys prefix (f # fs) =
     (case is_dataclass (f_type f) of
        Some dc \<Rightarrow> schema_keys dc (prefix @ ''__'' @ f_name f)
      | None \<Rightarrow> [prefix @ ''__'' @ f_name f])
     @ fields_keys prefix fs"
  by pat_completeness auto
termination
proof -
  have sz: "size dc < Suc (size f)" if "is_dataclass (f_type f) = Some dc" for f dc
    using that by (cases f; cases "f_type f") auto
  show ?thesis
    by (relation "measure (\<lambda>x. case x of
           Inl (dc, rest) \<Rightarrow> size dc
         | Inr (prefix, fs) \<Rightarrow> size_list size fs)")
       (auto dest: sz)
qed

text \<open>Leaf fields and record nodes of a schema, counted recursively.\<close>

function (sequential) count_leaves :: "dataclass \<Rightarrow> nat"
and count_leaves_fields :: "field list \<Rightarrow> nat"
where
  "count_leaves (Dataclass class_name fs) = count_leaves_fields fs"
| "count_leaves_fields [] = 0"
| "count_leaves_fields (f # fs) =
     (case is_dataclass (f_type f) of Some dc \<Rightarrow> count_leaves dc | None \<Rightarrow> 1)
     + count_leaves_fields fs"
  by pat_completeness auto
termination
proof -
  have sz: "size dc < Suc (size f)" if "is_dataclass (f_type f) = Some dc" for f dc
    using that by (cases f; cases "f_type f") auto
  show ?thesis
    by (relation "measure (\<lambda>x. case x of
           Inl dc \<Rightarrow> size dc | Inr fs \<Rightarrow> size_list size fs)")
       (auto dest: sz)
qed

function (sequential) count_records :: "dataclass \<Rightarrow> nat"
and count_records_fields :: "field list \<Rightarrow> nat"
where
  "count_records (Dataclass class_name fs) = 1 + count_records_fields fs"
| "count_records_fields [] = 0"
| "count_records_fields (f # fs) =
     (case is_dataclass (f_type f) of Some dc \<Rightarrow> count_records dc | None \<Rightarrow> 0)
     + count_records_fields fs"
  by pat_completeness auto
termination
proof -
  have sz: "size dc < Suc (size f)" if "is_dataclass (f_type f) = Some dc" for f dc
    using that by (cases f; cases "f_type f") auto
  show ?thesis
    by (relation "measure (\<lambda>x. case x of
           Inl dc \<Rightarrow> size dc | Inr fs \<Rightarrow> size_list size fs)")
       (auto dest: sz)
qed

text \<open>
  The keys of a Python dict that receives a sequence of keys: the first
  occurrence of each, in order.
\<close>

definition add_key :: "'k list \<Rightarrow> 'k \<Rightarrow> 'k list" where
  "add_key ks k = (if k \<in> set ks then ks else ks @ [k])"

definition add_keys :: "'k list \<Rightarrow> 'k list \<Rightarrow> 'k list" where
  "add_keys ks new = fold (\<lambda>k acc. add_key acc k) new ks"

text \<open>
  The leaves of a schema with their state ids, in the order in which the builder
  hands them to the handler, and the handler calls of one build as a loop.
\<close>

function (sequential) schema_leaves :: "dataclass \<Rightarrow> string \<Rightarrow> (string \<times> field) list"
and fields_leaves :: "string \<Rightarrow> field list \<Rightarrow> (string \<times> field) list"
where
  "schema_leaves (Dataclass class_name fs) prefix =
     fields_leaves (node_key prefix class_name) fs"
| "fields_leaves prefix [] = []"
| "fields_leaves prefix (f # fs) =
     (case is_dataclass (f_type f) of
        Some dc \<Rightarrow> schema_leaves dc (prefix @ ''__'' @ f_name f)
      | None \<Rightarrow> [(prefix @ ''__'' @ f_name f, f)])
     @ fields_leaves prefix fs"
  by pat_completeness auto
termination
proof -
  have sz: "size dc < Suc (size f)" if "is_dataclass (f_type f) = Some dc" for f dc
    using that by (cases f; cases "f_type f") auto
  show ?thesis
    by (relation "measure (\<lambda>x. case x of
           Inl (dc, rest) \<Rightarrow> size dc
         | Inr (prefix, fs) \<Rightarrow> size_list size fs)")
       (auto dest: sz)
qed

fun run_handlers :: "('s, 'l) handler \<Rightarrow> (string \<times> field) list \<Rightarrow> 's \<Rightarrow> 's \<times> (error + unit)" where
  "run_handlers handler [] st = (st, Inr ())"
| "run_handlers handler ((state_id, f) # xs) st =
     (case handler state_id f st of
        (st', Inl e) \<Rightarrow> (st', Inl e)
      | (st', Inr l) \<Rightarrow> run_handlers handler xs st')"

text \<open>
  A handler returns a leaf that depends on the state id and the field only.
\<close>

definition returns_leaf :: "('s, 'l) handler \<Rightarrow> (string \<Rightarrow> field \<Rightarrow> 'l) \<Rightarrow> bool" where
  "returns_leaf h mk = (\<forall>sid f st st' l. h sid f st = (st', Inr l) \<longrightarrow> l = mk sid f)"

text \<open>The handler of \<^verbatim>\<open>state_proxy\<close> and the encoder it uses.\<close>

definition proxy_handler :: "encoder \<Rightarrow> (store, proxy_field) handler" where
  "proxy_handler enc =
     (\<lambda>state_id f st.
        ProxyField_init st state_id (f_name f) (f_type f) (f_default f) (f_default_factory f) enc)"

definition chosen_encoder :: "pylib \<Rightarrow> encoder option \<Rightarrow> encoder" where
  "chosen_encoder lib state_encoder =
     (case state_encoder of None \<Rightarrow> default_encoder lib | Some e \<Rightarrow> e)"


text \<open>
  The entries that a build stores in the flat field index, in the order of the
  stores: for each field in declaration order the leaf under its state id, or the
  entries of the nested record; then the record itself under its own key.
\<close>

function (sequential) schema_entries ::
  "(string \<Rightarrow> field \<Rightarrow> 'l) \<Rightarrow> string \<Rightarrow> dataclass \<Rightarrow> string \<Rightarrow> 'l field_dict"
and fields_entries ::
  "(string \<Rightarrow> field \<Rightarrow> 'l) \<Rightarrow> string \<Rightarrow> string \<Rightarrow> field list \<Rightarrow> 'l field_dict"
where
  "schema_entries mk cls_suffix (Dataclass class_name fs) prefix =
     fields_entries mk cls_suffix (node_key prefix class_name) fs
     @ [(node_key prefix class_name,
         SubProxy (proxy_of mk cls_suffix (Dataclass class_name fs) prefix))]"
| "fields_entries mk cls_suffix prefix [] = []"
| "fields_entries mk cls_suffix prefix (f # fs) =
     (case is_dataclass (f_type f) of
        Some dc \<Rightarrow> schema_entries mk cls_suffix dc (prefix @ ''__'' @ f_name f)
      | None \<Rightarrow> [(prefix @ ''__'' @ f_name f, LeafField (mk (prefix @ ''__'' @ f_name f) f))])
     @ fields_entries mk cls_suffix prefix fs"
  by pat_completeness auto
termination
proof -
  have sz: "size dc < Suc (size f)" if "is_dataclass (f_type f) = Some dc" for f dc
    using that by (cases f; cases "f_type f") auto
  show ?thesis
    by (relation "measure (\<lambda>x. case x of
           Inl (mk, suffix, dc, rest) \<Rightarrow> size dc
         | Inr (mk, suffix, prefix, fs) \<Rightarrow> size_list size fs)")
       (auto dest: sz)
qed

text \<open>
  The keys of a proxy tree by position: a leaf gives its state id, a record node
  its synthetic key and, by attribute name, the trees of its attributes.
\<close>

datatype idtree = IdLeaf string | IdNode string "(string \<times> idtree) list"

primrec proxy_ids :: "('l \<Rightarrow> string) \<Rightarrow> 'l proxy \<Rightarrow> idtree"
and attr_ids :: "('l \<Rightarrow> string) \<Rightarrow> 'l attr \<Rightarrow> idtree"
where
  "proxy_ids g (Proxy c dc state_id namespace d) =
     IdNode state_id (map (map_prod id (attr_ids g)) namespace)"
| "attr_ids g (LeafField l) = IdLeaf (g l)"
| "attr_ids g (SubProxy p) = proxy_ids g p"

text \<open>
  The keys a schema gets by the derived-key formula: every field of a record built
  with \<open>prefix\<close> has the key \<open>derived_key prefix type_name field_name\<close>, and that
  key is the prefix of the record nested in the field.
\<close>

function (sequential) schema_ids :: "dataclass \<Rightarrow> string \<Rightarrow> idtree"
and fields_ids ::
  "string \<Rightarrow> string \<Rightarrow> field list \<Rightarrow> (string \<times> idtree) list \<Rightarrow> (string \<times> idtree) list"
where
  "schema_ids (Dataclass class_name fs) prefix =
     IdNode (node_key prefix class_name) (fields_ids prefix class_name fs [])"
| "fields_ids prefix class_name [] acc = acc"
| "fields_ids prefix class_name (f # fs) acc =
     fields_ids prefix class_name fs
       (dict_set acc (f_name f)
          (case is_dataclass (f_type f) of
             Some dc \<Rightarrow> schema_ids dc (derived_key prefix class_name (f_name f))
           | None \<Rightarrow> IdLeaf (derived_key prefix class_name (f_name f))))"
  by pat_completeness auto
termination
proof -
  have sz: "size dc < Suc (size f)" if "is_dataclass (f_type f) = Some dc" for f dc
    using that by (cases f; cases "f_type f") auto
  show ?thesis
    by (relation "measure (\<lambda>x. case x of
           Inl (dc, rest) \<Rightarrow> size dc
         | Inr (prefix, class_name, fs, acc) \<Rightarrow> size_list size fs)")
       (auto dest: sz)
qed

text \<open>
  Binding tokens taken from name-proxies: a leaf token is a string; a sub-record
  token is the name-proxy of a record class built with some prefix (the root of a
  name-proxy, or one of its nested nodes, which is built with its field's derived
  key as prefix). \<open>token_keys\<close> lists what such a token contributes to the reactive
  keys; \<open>leaves_then_own_key\<close> is the list as the specification words it.
\<close>

fun names_token :: "name_field key \<Rightarrow> string + dataclass \<times> string \<Rightarrow> bool" where
  "names_token k (Inl s) = (k = StrKey s)"
| "names_token k (Inr (dc, prefix)) =
     (case state_names_proxy dc prefix of Inr q \<Rightarrow> k = ProxyKey q | Inl e \<Rightarrow> False)"

fun token_keys :: "string + dataclass \<times> string \<Rightarrow> string list" where
  "token_keys (Inl s) = [s]"
| "token_keys (Inr (dc, prefix)) = add_keys [] (schema_keys dc prefix)"

fun leaves_then_own_key :: "string + dataclass \<times> string \<Rightarrow> string list" where
  "leaves_then_own_key (Inl s) = [s]"
| "leaves_then_own_key (Inr (dc, prefix)) =
     map fst (schema_leaves dc prefix) @ [node_key prefix (dc_name dc)]"

text \<open>
  Attribute access by path. \<open>attr_at p [n1, n2, ...]\<close> is the object behind
  \<^verbatim>\<open>p.n1.n2...\<close>: a nested proxy instance, or the leaf descriptor whose \<^verbatim>\<open>__get__\<close>
  Python then calls. \<open>schema_at\<close> follows the same path in the schema and gives
  the leaf field with its state id, or the nested class with its prefix;
  \<open>realize\<close> is the object that a build with leaves \<open>mk\<close> has there.
\<close>

fun attr_at :: "'l proxy \<Rightarrow> string list \<Rightarrow> 'l attr option" where
  "attr_at p [] = Some (SubProxy p)"
| "attr_at p (n # path) =
     (case map_of (proxy_namespace p) n of
        None \<Rightarrow> None
      | Some (LeafField l) \<Rightarrow> (if path = [] then Some (LeafField l) else None)
      | Some (SubProxy q) \<Rightarrow> attr_at q path)"

primrec schema_at ::
  "string list \<Rightarrow> dataclass \<Rightarrow> string \<Rightarrow> (string \<times> field + dataclass \<times> string) option" where
  "schema_at [] dc prefix = Some (Inr (dc, prefix))"
| "schema_at (n # path) dc prefix =
     (case map_of (rev (map (\<lambda>f. (f_name f, f)) (dc_fields dc))) n of
        None \<Rightarrow> None
      | Some f \<Rightarrow>
          (case is_dataclass (f_type f) of
             None \<Rightarrow>
               (if path = [] then Some (Inl (derived_key prefix (dc_name dc) n, f)) else None)
           | Some dc' \<Rightarrow> schema_at path dc' (derived_key prefix (dc_name dc) n)))"

fun realize ::
  "(string \<Rightarrow> field \<Rightarrow> 'l) \<Rightarrow> string \<Rightarrow> string \<times> field + dataclass \<times> string \<Rightarrow> 'l attr" where
  "realize mk cls_suffix (Inl (state_id, f)) = LeafField (mk state_id f)"
| "realize mk cls_suffix (Inr (dc, prefix)) = SubProxy (proxy_of mk cls_suffix dc prefix)"





text \<open>
  The attribute that a build with leaves \<open>mk\<close> gives to the field \<open>f\<close> of a record
  whose own key is \<open>P\<close>.
\<close>

definition field_attr :: "(string \<Rightarrow> field \<Rightarrow> 'l) \<Rightarrow> string \<Rightarrow> string \<Rightarrow> field \<Rightarrow> 'l attr" where
  "field_attr mk suf P f =
     (case is_dataclass (f_type f) of
        Some dc \<Rightarrow> SubProxy (proxy_of mk suf dc (P @ ''__'' @ f_name f))
      | None \<Rightarrow> LeafField (mk (P @ ''__'' @ f_name f) f))"

section \<open>Values that the default codec supports\<close>





section \<open>Example codecs\<close>

text \<open>
  \<^verbatim>\<open>IStateEncoderDecoder.raise_unhandled_type\<close> raises \<^verbatim>\<open>TypeError\<close>. A unit codec
  that handles nothing calls it from both methods.
\<close>

definition raise_unhandled_type :: "pyval \<Rightarrow> error + pyval" where
  "raise_unhandled_type obj = Inl TypeError"

definition declining_encoder :: encoder where
  "declining_encoder =
     \<lparr>enc_encode = raise_unhandled_type,
      enc_decode = (\<lambda>obj obj_type. raise_unhandled_type obj)\<rparr>"



section \<open>Example schemas\<close>

text \<open>
  The dataclasses of the test suite (\<^verbatim>\<open>MyData\<close>, \<^verbatim>\<open>MyBiggerData\<close>, with an integer
  for the float field), and a dataclass with a field name that contains the
  separator:
  \<^verbatim>\<open>
  @dataclass
  class Inner:
      x: int = 0

  @dataclass
  class Outer:
      a: Inner = field(default_factory=Inner)
      a__Inner__x: str = "s"
      a__Inner: int = 7
  \<close>
\<close>

definition MyData :: dataclass where
  "MyData = Dataclass ''MyData''
     [Field ''a'' TInt (Some (VInt 1)) None, Field ''b'' TInt (Some (VInt 2)) None]"

definition MyBiggerData :: dataclass where
  "MyBiggerData = Dataclass ''MyBiggerData''
     [Field ''my_other_data'' (TDataclass MyData) None
        (Some (VObj ''MyData'' [(''a'', VInt 1), (''b'', VInt 2)])),
      Field ''c'' TInt (Some (VInt 42)) None]"

definition Inner :: dataclass where
  "Inner = Dataclass ''Inner'' [Field ''x'' TInt (Some (VInt 0)) None]"

definition Outer :: dataclass where
  "Outer = Dataclass ''Outer''
     [Field ''a'' (TDataclass Inner) None (Some (VObj ''Inner'' [(''x'', VInt 0)])),
      Field ''a__Inner__x'' TStr (Some (VStr ''s'')) None,
      Field ''a__Inner'' TInt (Some (VInt 7)) None]"


section \<open>The standard library at the values of the examples\<close>

text \<open>
  What Python 3.11 returns for the calls the examples make:
  \<^verbatim>\<open>str(UUID(int=0x12345678123456781234567812345678))\<close>,
  \<^verbatim>\<open>str(Decimal("3.14"))\<close>, \<^verbatim>\<open>date(2020, 1, 1).isoformat()\<close> (ordinal 737425),
  \<^verbatim>\<open>time(12, 30).isoformat()\<close>,
  \<^verbatim>\<open>datetime(2020, 1, 1, tzinfo=timezone.utc).isoformat()\<close>, and their inverses.
  Elsewhere the table answers with an error; the local zone is UTC.
\<close>

definition example_uuid :: nat where
  "example_uuid = 24197857161011715162171839636988778104"

definition example_datetime :: int where
  "example_datetime = 63713433600000000"

definition example_str :: "pyval \<Rightarrow> string" where
  "example_str obj =
     (if obj = VUUID example_uuid then ''12345678-1234-5678-1234-567812345678''
      else if obj = VDecimal False 314 (- 2) then ''3.14''
      else [])"

definition example_isoformat :: "pyval \<Rightarrow> string" where
  "example_isoformat obj =
     (if obj = VDate 737425 then ''2020-01-01''
      else if obj = VTime 45000000000 None then ''12:30:00''
      else if obj = VDateTime example_datetime (Some 0) then ''2020-01-01T00:00:00+00:00''
      else [])"

definition example_fromisoformat :: "pytype \<Rightarrow> pyval \<Rightarrow> error + pyval" where
  "example_fromisoformat obj_type obj =
     (case obj of
        VStr s \<Rightarrow>
          (if obj_type = TDate \<and> s = ''2020-01-01'' then Inr (VDate 737425)
           else if obj_type = TTime \<and> s = ''12:30:00'' then Inr (VTime 45000000000 None)
           else if obj_type = TDateTime \<and> s = ''2020-01-01T00:00:00+00:00''
             then Inr (VDateTime example_datetime (Some 0))
           else Inl ValueError)
      | _ \<Rightarrow> Inl TypeError)"

definition example_call :: "pytype \<Rightarrow> pyval \<Rightarrow> error + pyval" where
  "example_call obj_type obj =
     (case obj_type of
        TUUID \<Rightarrow>
          (if obj = VStr ''12345678-1234-5678-1234-567812345678'' then Inr (VUUID example_uuid)
           else Inl ValueError)
      | TDecimal \<Rightarrow>
          (if obj = VStr ''3.14'' then Inr (VDecimal False 314 (- 2)) else Inl ValueError)
      | TInt \<Rightarrow> (case obj of VInt i \<Rightarrow> Inr (VInt i) | _ \<Rightarrow> Inl TypeError)
      | _ \<Rightarrow> Inl TypeError)"

definition example_lib :: pylib where
  "example_lib =
     \<lparr>py_str = example_str, py_isoformat = example_isoformat,
      py_fromisoformat = example_fromisoformat, py_call = example_call,
      py_local_utcoffset = (\<lambda>t. Inr 0)\<rparr>"

section \<open>The composite codec at the end of its chain\<close>

lemma try_decode_all_decline:
  "(\<And>e. e \<in> set encoders \<Longrightarrow> enc_decode e obj obj_type = Inl TypeError)
     \<Longrightarrow> try_decode encoders obj obj_type = Inr obj"
  by (induction encoders) simp_all

lemma collection_decode_scalar:
  "list_items obj = None \<Longrightarrow> dict_items obj = None
     \<Longrightarrow> CollectionEncoderDecoder_decode encoders obj obj_type = try_decode encoders obj obj_type"
  by (cases obj) simp_all

text \<open>
  C3 (as amended). When the composite codec decodes a raw value that is neither a
  list nor a dict and every unit codec of its chain raises \<^verbatim>\<open>TypeError\<close>, the
  composite \<^verbatim>\<open>decode\<close> returns the raw value unchanged; it does not raise.
\<close>

theorem collection_decode_returns_raw:
  assumes "list_items obj = None" and "dict_items obj = None"
    and "\<forall>e \<in> set encoders. enc_decode e obj obj_type = Inl TypeError"
  shows "enc_decode (CollectionEncoderDecoder encoders) obj obj_type = Inr obj"
proof -
  have "CollectionEncoderDecoder_decode encoders obj obj_type = try_decode encoders obj obj_type"
    using assms(1,2) by (rule collection_decode_scalar)
  also have "\<dots> = Inr obj"
    using assms(3) by (intro try_decode_all_decline) simp
  finally show ?thesis
    by (simp add: CollectionEncoderDecoder_def)
qed

theorem collection_decode_returns_raw_witness:
  "list_items (VInt 1) = None \<and> dict_items (VInt 1) = None
   \<and> enc_decode declining_encoder (VInt 1) TInt = Inl TypeError
   \<and> enc_decode (CollectionEncoderDecoder [declining_encoder]) (VInt 1) TInt = Inr (VInt 1)"
  using collection_decode_returns_raw [of "VInt 1" "[declining_encoder]" TInt]
  by (simp add: declining_encoder_def raise_unhandled_type_def)

text \<open>
  The claim as stated fails: the only unit codec of the chain raises
  \<^verbatim>\<open>TypeError\<close> for the integer 1 and the composite \<^verbatim>\<open>decode\<close> returns 1.
\<close>

theorem collection_decode_raises_counterexample:
  "enc_decode declining_encoder (VInt 1) TInt = Inl TypeError
   \<and> \<not> isl (enc_decode (CollectionEncoderDecoder [declining_encoder]) (VInt 1) TInt)"
  by (simp add: CollectionEncoderDecoder_def declining_encoder_def raise_unhandled_type_def)

section \<open>The builder and the tree a schema determines\<close>

lemma run_handlers_append:
  "run_handlers h (xs @ ys) st =
     (case run_handlers h xs st of
        (st', Inl e) \<Rightarrow> (st', Inl e)
      | (st', Inr u) \<Rightarrow> run_handlers h ys st')"
  by (induction xs arbitrary: st) (auto split: prod.splits sum.splits)

text \<open>
  A build is the loop of its handler calls; when none of them raises, the proxy is
  the tree of the schema.
\<close>

lemma build_proxy_cls_pure:
  shows "returns_leaf h mk \<Longrightarrow> build_proxy_cls dc prefix h suf pfd st =
     (case run_handlers h (schema_leaves dc prefix) st of
        (st', Inl e) \<Rightarrow> (st', Inl e)
      | (st', Inr u) \<Rightarrow>
          (st', Inr (proxy_of mk suf dc prefix,
                     map_option (\<lambda>d. dict_update d (proxy_inner_dict (proxy_of mk suf dc prefix))) pfd)))"
    and "returns_leaf h mk \<Longrightarrow> build_fields fs P h suf ns d st =
     (case run_handlers h (fields_leaves P fs) st of
        (st', Inl e) \<Rightarrow> (st', Inl e)
      | (st', Inr u) \<Rightarrow> (st', Inr (fields_of mk suf fs P ns d)))"
proof (induction dc prefix h suf pfd st and fs P h suf ns d st
    rule: build_proxy_cls_build_fields.induct)
  case (1 class_name fs prefix handler cls_suffix proxy_field_dict st)
  then show ?case
    by (auto simp: Let_def node_key_def split: prod.splits sum.splits)
next
  case (2 prefix handler cls_suffix namespace inner_field_dict st)
  then show ?case by simp
next
  case (3 f fs prefix handler cls_suffix namespace inner_field_dict st)
  show ?case
  proof (cases "is_dataclass (f_type f)")
    case None
    show ?thesis
    proof (cases "handler (prefix @ ''__'' @ f_name f) f st")
      case (Pair st1 r1)
      show ?thesis
      proof (cases r1)
        case (Inl e)
        with None Pair show ?thesis by simp
      next
        case (Inr l)
        have l: "l = mk (prefix @ ''__'' @ f_name f) f"
          using "3.prems" Pair Inr unfolding returns_leaf_def by blast
        have "build_fields fs prefix handler cls_suffix (dict_set namespace (f_name f) (LeafField l))
           (dict_set inner_field_dict (get_state_id (LeafField l) (prefix @ ''__'' @ f_name f))
              (LeafField l)) st1 =
          (case run_handlers handler (fields_leaves prefix fs) st1 of
             (st', Inl e) \<Rightarrow> (st', Inl e)
           | (st', Inr u) \<Rightarrow>
               (st', Inr (fields_of mk cls_suffix fs prefix
                  (dict_set namespace (f_name f) (LeafField l))
                  (dict_set inner_field_dict
                     (get_state_id (LeafField l) (prefix @ ''__'' @ f_name f)) (LeafField l)))))"
          using "3.IH"(1)[OF refl None Pair[symmetric] Inr "3.prems"] by simp
        with None Pair Inr l show ?thesis
          by (auto simp: Let_def split: prod.splits sum.splits)
      qed
    qed
  next
    case (Some dc)
    let ?sid = "prefix @ ''__'' @ f_name f"
    let ?p = "proxy_of mk cls_suffix dc ?sid"
    have IH1: "build_proxy_cls dc ?sid handler cls_suffix (Some inner_field_dict) st =
     (case run_handlers handler (schema_leaves dc ?sid) st of
        (st', Inl e) \<Rightarrow> (st', Inl e)
      | (st', Inr u) \<Rightarrow>
          (st', Inr (?p, Some (dict_update inner_field_dict (proxy_inner_dict ?p)))))"
      using "3.IH"(2)[OF refl Some "3.prems"] by (auto split: prod.splits sum.splits)
    show ?thesis
    proof (cases "run_handlers handler (schema_leaves dc ?sid) st")
      case (Pair st1 r1)
      show ?thesis
      proof (cases r1)
        case (Inl e)
        with Some Pair IH1 show ?thesis by (simp add: run_handlers_append)
      next
        case (Inr u)
        have b: "build_proxy_cls dc ?sid handler cls_suffix (Some inner_field_dict) st =
           (st1, Inr (?p, Some (dict_update inner_field_dict (proxy_inner_dict ?p))))"
          using IH1 Pair Inr by simp
        note IH2 = "3.IH"(3)[OF refl Some b[symmetric] refl refl "3.prems"]
        show ?thesis
          using Some Pair Inr b IH2
          by (auto simp: run_handlers_append Let_def split: prod.splits sum.splits)
      qed
    qed
  qed
qed

lemma proxy_handler_returns_leaf: "returns_leaf (proxy_handler enc) mk_proxy_field"
  by (auto simp: returns_leaf_def proxy_handler_def ProxyField_init_def mk_proxy_field_def Let_def
      split: option.splits sum.splits if_splits)

lemma name_handler_returns_leaf:
  "returns_leaf (\<lambda>state_id f st. (st, Inr (NameField state_id))) mk_name_field"
  by (simp add: returns_leaf_def mk_name_field_def)

lemma run_name_handlers:
  "run_handlers (\<lambda>state_id f st. (st, Inr (NameField state_id))) xs st = (st, Inr ())"
  by (induction xs) auto

lemma state_names_proxy_eq:
  "state_names_proxy dc ns = Inr (proxy_of mk_name_field ''__ProxyName'' dc ns)"
proof -
  let ?h = "(\<lambda>state_id f st. (st, Inr (NameField state_id))) :: (unit, name_field) handler"
  have "build_proxy_cls dc ns ?h ''__ProxyName'' None () =
      ((), Inr (proxy_of mk_name_field ''__ProxyName'' dc ns, None))"
    using run_name_handlers [of "schema_leaves dc ns" "()"]
    by (subst build_proxy_cls_pure(1)[OF name_handler_returns_leaf]) simp
  then show ?thesis
    by (simp add: state_names_proxy_def)
qed

lemma state_proxy_eq:
  "state_proxy lib dc st ns state_encoder =
     (case run_handlers (proxy_handler (chosen_encoder lib state_encoder)) (schema_leaves dc ns) st of
        (st', Inl e) \<Rightarrow> (st', Inl e)
      | (st', Inr u) \<Rightarrow> (st', Inr (proxy_of mk_proxy_field ''__Proxy'' dc ns)))"
proof -
  let ?h = "proxy_handler (chosen_encoder lib state_encoder)"
  have "state_proxy lib dc st ns state_encoder =
      (case build_proxy_cls dc ns ?h ''__Proxy'' None st of
         (st', Inl e) \<Rightarrow> (st', Inl e)
       | (st', Inr (p, d)) \<Rightarrow> (st', Inr p))"
    by (simp add: state_proxy_def proxy_handler_def chosen_encoder_def Let_def)
  also have "\<dots> =
      (case run_handlers ?h (schema_leaves dc ns) st of
         (st', Inl e) \<Rightarrow> (st', Inl e)
       | (st', Inr u) \<Rightarrow> (st', Inr (proxy_of mk_proxy_field ''__Proxy'' dc ns)))"
    by (subst build_proxy_cls_pure(1)[OF proxy_handler_returns_leaf])
       (auto split: prod.splits sum.splits)
  finally show ?thesis .
qed

section \<open>Defaults never replace a stored value\<close>

lemma ProxyField_init_keeps:
  "ProxyField_init st sid n ty dflt fac enc = (st', r) \<Longrightarrow> st k = Some v \<Longrightarrow> st' k = Some v"
  by (auto simp: ProxyField_init_def state_setdefault_def Let_def
      split: option.splits sum.splits if_splits)

lemma run_proxy_handlers_keep:
  "run_handlers (proxy_handler enc) xs st = (st', r) \<Longrightarrow> st k = Some v \<Longrightarrow> st' k = Some v"
proof (induction xs arbitrary: st)
  case Nil
  then show ?case by simp
next
  case (Cons x xs)
  obtain sid f where x: "x = (sid, f)" by (cases x)
  obtain st1 r1 where h: "proxy_handler enc sid f st = (st1, r1)"
    by (cases "proxy_handler enc sid f st")
  then have k1: "st1 k = Some v"
    using Cons.prems(2) by (auto simp: proxy_handler_def dest: ProxyField_init_keeps)
  show ?case
  proof (cases r1)
    case (Inl e)
    with Cons.prems(1) x h k1 show ?thesis by simp
  next
    case (Inr l)
    with Cons.prems(1) x h have "run_handlers (proxy_handler enc) xs st1 = (st', r)" by simp
    then show ?thesis using k1 by (rule Cons.IH)
  qed
qed

text \<open>
  C8. Proxy construction writes defaults with \<^verbatim>\<open>setdefault\<close> only: whatever the
  outcome of \<^verbatim>\<open>state_proxy\<close>, every key that held a value before the construction
  holds the same value after it. In particular a second construction for the same
  schema and namespace does not put a default back over a stored value.
\<close>

theorem state_proxy_keeps_stored_values:
  assumes "state_proxy lib dataclass_type state state_namespace state_encoder = (state', r)"
    and "state key = Some v"
  shows "state' key = Some v"
proof -
  obtain st1 r1 where run:
    "run_handlers (proxy_handler (chosen_encoder lib state_encoder))
       (schema_leaves dataclass_type state_namespace) state = (st1, r1)"
    by (cases "run_handlers (proxy_handler (chosen_encoder lib state_encoder))
       (schema_leaves dataclass_type state_namespace) state")
  then have "st1 key = Some v"
    using assms(2) by (rule run_proxy_handlers_keep)
  moreover have "state' = st1"
    using assms(1) run by (auto simp: state_proxy_eq split: sum.splits)
  ultimately show ?thesis by simp
qed

theorem state_proxy_keeps_stored_values_witness:
  "(Map.empty(''MyData__a'' \<mapsto> VInt 42)) ''MyData__a'' = Some (VInt 42)
   \<and> fst (state_proxy example_lib MyData (Map.empty(''MyData__a'' \<mapsto> VInt 42)) [] None)
        ''MyData__a'' = Some (VInt 42)
   \<and> fst (state_proxy example_lib MyData (Map.empty(''MyData__a'' \<mapsto> VInt 42)) [] None)
        ''MyData__b'' = Some (VInt 2)"
proof -
  let ?st = "Map.empty(''MyData__a'' \<mapsto> VInt 42)"
  let ?r = "state_proxy example_lib MyData ?st [] None"
  have "fst ?r ''MyData__a'' = Some (VInt 42)"
    using state_proxy_keeps_stored_values [of example_lib MyData ?st "[]" None "fst ?r" "snd ?r"
        "''MyData__a''" "VInt 42"]
    by simp
  moreover have "fst ?r ''MyData__b'' = Some (VInt 2)"
    by (simp add: state_proxy_eq MyData_def node_key_def proxy_handler_def chosen_encoder_def
        ProxyField_init_def default_encoder_def CollectionEncoderDecoder_def
        DefaultEncoderDecoder_def state_setdefault_def Let_def)
  ultimately show ?thesis by simp
qed

section \<open>A failing encode and the store\<close>














section \<open>Insertion-ordered dicts\<close>

lemma dict_keys_dict_set: "dict_keys (dict_set d k v) = add_key (dict_keys d) k"
  by (induction d) (force simp: dict_keys_def add_key_def)+

lemma add_keys_Nil [simp]: "add_keys ks [] = ks"
  by (simp add: add_keys_def)

lemma add_keys_Cons [simp]: "add_keys ks (x # xs) = add_keys (add_key ks x) xs"
  by (simp add: add_keys_def)

lemma add_keys_append: "add_keys ks (xs @ ys) = add_keys (add_keys ks xs) ys"
  by (simp add: add_keys_def)

lemma set_add_key: "set (add_key ks k) = insert k (set ks)"
  by (auto simp: add_key_def)

lemma set_add_keys: "set (add_keys ks xs) = set ks \<union> set xs"
  by (induction xs arbitrary: ks) (auto simp: set_add_key)

lemma add_keys_distinct: "distinct (ks @ xs) \<Longrightarrow> add_keys ks xs = ks @ xs"
proof (induction xs arbitrary: ks)
  case Nil
  then show ?case by simp
next
  case (Cons x xs)
  then have "add_key ks x = ks @ [x]" by (simp add: add_key_def)
  moreover from Cons.prems have "distinct ((ks @ [x]) @ xs)" by auto
  ultimately show ?case using Cons.IH [of "ks @ [x]"] by simp
qed

lemma dict_keys_dict_update:
  "dict_keys (dict_update d e) = add_keys (dict_keys d) (dict_keys e)"
proof (induction e arbitrary: d)
  case Nil
  then show ?case by (simp add: dict_keys_def)
next
  case (Cons x e)
  obtain k v where x: "x = (k, v)" by (cases x)
  show ?case
    using Cons.IH [of "dict_set d k v"] x
    by (simp add: dict_keys_dict_set) (simp add: dict_keys_def)
qed

lemma distinct_add_key: "distinct ks \<Longrightarrow> distinct (add_key ks k)"
  by (simp add: add_key_def)

lemma distinct_add_keys: "distinct ks \<Longrightarrow> distinct (add_keys ks xs)"
  by (induction xs arbitrary: ks) (simp_all add: distinct_add_key)

lemma distinct_dict_set: "distinct (dict_keys d) \<Longrightarrow> distinct (dict_keys (dict_set d k v))"
  by (simp add: dict_keys_dict_set distinct_add_key)

lemma distinct_dict_update: "distinct (dict_keys d) \<Longrightarrow> distinct (dict_keys (dict_update d e))"
  by (simp add: dict_keys_dict_update distinct_add_keys)

lemma dict_set_new: "k \<notin> set (dict_keys d) \<Longrightarrow> dict_set d k v = d @ [(k, v)]"
  by (induction d) (auto simp: dict_keys_def)

lemma dict_set_twice: "dict_set (dict_set d k v') k v = dict_set d k v"
  by (induction d) auto

lemma dict_set_commute:
  "k \<noteq> k1 \<Longrightarrow> k \<in> set (dict_keys d)
     \<Longrightarrow> dict_set (dict_set d k1 v1) k v = dict_set (dict_set d k v) k1 v1"
  by (induction d) (force simp: dict_keys_def)+

lemma dict_update_append: "dict_update d (e @ e') = dict_update (dict_update d e) e'"
  by (induction e arbitrary: d) auto

lemma dict_set_after_update:
  "k \<notin> set (dict_keys e) \<Longrightarrow> k \<in> set (dict_keys d)
     \<Longrightarrow> dict_set (dict_update d e) k v = dict_update (dict_set d k v) e"
proof (induction e arbitrary: d)
  case Nil
  then show ?case by simp
next
  case (Cons x e)
  obtain k1 v1 where x: "x = (k1, v1)" by (cases x)
  from Cons.prems x have ne: "k \<noteq> k1" and notin: "k \<notin> set (dict_keys e)"
    by (auto simp: dict_keys_def)
  have "k \<in> set (dict_keys (dict_set d k1 v1))"
    using Cons.prems(2) by (simp add: dict_keys_dict_set set_add_key)
  then have "dict_set (dict_update (dict_set d k1 v1) e) k v
      = dict_update (dict_set (dict_set d k1 v1) k v) e"
    using notin by (intro Cons.IH)
  also have "dict_set (dict_set d k1 v1) k v = dict_set (dict_set d k v) k1 v1"
    using ne Cons.prems(2) by (rule dict_set_commute)
  finally show ?case using x by simp
qed

lemma dict_update_dict_set:
  "distinct (dict_keys a) \<Longrightarrow> dict_update d (dict_set a k v) = dict_set (dict_update d a) k v"
proof (induction a arbitrary: d)
  case Nil
  then show ?case by simp
next
  case (Cons x a)
  obtain k' v' where x: "x = (k', v')" by (cases x)
  from Cons.prems x have notin: "k' \<notin> set (dict_keys a)" and da: "distinct (dict_keys a)"
    by (auto simp: dict_keys_def)
  show ?case
  proof (cases "k' = k")
    case True
    have "k \<in> set (dict_keys (dict_set d k v'))"
      by (simp add: dict_keys_dict_set set_add_key)
    then have "dict_set (dict_update (dict_set d k v') a) k v
        = dict_update (dict_set (dict_set d k v') k v) a"
      using notin True by (intro dict_set_after_update) simp
    then show ?thesis using x True by (simp add: dict_set_twice)
  next
    case False
    then show ?thesis using x Cons.IH [OF da, of "dict_set d k' v'"] by simp
  qed
qed

lemma dict_update_absorb:
  "distinct (dict_keys a) \<Longrightarrow> dict_update d (dict_update a e) = dict_update (dict_update d a) e"
proof (induction e arbitrary: a)
  case Nil
  then show ?case by simp
next
  case (Cons x e)
  obtain k v where x: "x = (k, v)" by (cases x)
  have "dict_update d (dict_update (dict_set a k v) e)
      = dict_update (dict_update d (dict_set a k v)) e"
    using Cons.prems by (intro Cons.IH distinct_dict_set)
  then show ?case using x Cons.prems by (simp add: dict_update_dict_set)
qed

lemma dict_update_Nil_absorb: "dict_update d (dict_update [] e) = dict_update d e"
  using dict_update_absorb [of "[]" d e] by (simp add: dict_keys_def)

lemma dict_update_distinct:
  "distinct (dict_keys d @ dict_keys e) \<Longrightarrow> dict_update d e = d @ e"
proof (induction e arbitrary: d)
  case Nil
  then show ?case by simp
next
  case (Cons x e)
  obtain k v where x: "x = (k, v)" by (cases x)
  from Cons.prems x have "dict_set d k v = d @ [(k, v)]"
    by (intro dict_set_new) (auto simp: dict_keys_def)
  moreover from Cons.prems x have "distinct (dict_keys (d @ [(k, v)]) @ dict_keys e)"
    by (auto simp: dict_keys_def)
  ultimately show ?case using x Cons.IH [of "d @ [(k, v)]"] by simp
qed

section \<open>The flat field index of a schema\<close>

lemma proxy_of_state_id [simp]:
  "proxy_state_id (proxy_of mk suf (Dataclass cn fs) pre) = node_key pre cn"
  by (simp add: Let_def split: prod.splits)

lemma proxy_of_dataclass_type [simp]:
  "proxy_dataclass_type (proxy_of mk suf dc pre) = dc"
  by (cases dc) (simp add: Let_def split: prod.splits)

lemma proxy_of_inner_dict:
  "proxy_inner_dict (proxy_of mk suf (Dataclass cn fs) pre)
     = snd (fields_of mk suf fs (node_key pre cn) [] [])"
  by (simp add: Let_def split: prod.splits)

lemma proxy_of_namespace:
  "proxy_namespace (proxy_of mk suf (Dataclass cn fs) pre)
     = fst (fields_of mk suf fs (node_key pre cn) [] [])"
  by (simp add: Let_def split: prod.splits)

text \<open>
  The index of a built proxy is the dict that received the entries of the schema
  in their order.
\<close>

lemma flat_index_entries:
  shows "get_field_proxy_dict (proxy_of mk suf dc pre) = dict_update [] (schema_entries mk suf dc pre)
         \<and> distinct (dict_keys (proxy_inner_dict (proxy_of mk suf dc pre)))"
    and "distinct (dict_keys d)
         \<Longrightarrow> snd (fields_of mk suf fs P ns d) = dict_update d (fields_entries mk suf P fs)"
proof (induction mk suf dc pre and mk suf fs P ns d rule: proxy_of_fields_of.induct)
  case (1 mk cls_suffix class_name fs prefix)
  let ?P = "node_key prefix class_name"
  let ?p = "proxy_of mk cls_suffix (Dataclass class_name fs) prefix"
  have inner: "proxy_inner_dict ?p = dict_update [] (fields_entries mk cls_suffix ?P fs)"
    using "1.IH" [OF refl] by (simp add: proxy_of_inner_dict dict_keys_def del: proxy_of.simps)
  have "get_field_proxy_dict ?p
      = dict_set (dict_update [] (fields_entries mk cls_suffix ?P fs)) ?P (SubProxy ?p)"
    unfolding get_field_proxy_dict_def inner [symmetric] by (simp del: proxy_of.simps)
  also have "\<dots> = dict_update [] (schema_entries mk cls_suffix (Dataclass class_name fs) prefix)"
    by (simp add: dict_update_append del: proxy_of.simps)
  finally have "get_field_proxy_dict ?p
      = dict_update [] (schema_entries mk cls_suffix (Dataclass class_name fs) prefix)" .
  moreover have "distinct (dict_keys (proxy_inner_dict ?p))"
    unfolding inner by (rule distinct_dict_update) (simp add: dict_keys_def)
  ultimately show ?case by (simp del: proxy_of.simps)
next
  case (2 mk cls_suffix prefix namespace inner_field_dict)
  then show ?case by simp
next
  case (3 mk cls_suffix f fs prefix namespace inner_field_dict)
  let ?sid = "prefix @ ''__'' @ f_name f"
  show ?case
  proof (cases "is_dataclass (f_type f)")
    case None
    let ?l = "mk ?sid f"
    have "distinct (dict_keys (dict_set inner_field_dict ?sid (LeafField ?l)))"
      using "3.prems" by (rule distinct_dict_set)
    from "3.IH"(1) [OF refl None refl this] None show ?thesis
      by (simp add: Let_def)
  next
    case (Some dc)
    let ?p = "proxy_of mk cls_suffix dc ?sid"
    let ?E = "schema_entries mk cls_suffix dc ?sid"
    let ?d1 = "dict_set (dict_update inner_field_dict (proxy_inner_dict ?p))
                 (proxy_state_id ?p) (SubProxy ?p)"
    have A: "get_field_proxy_dict ?p = dict_update [] ?E"
      and D: "distinct (dict_keys (proxy_inner_dict ?p))"
      using "3.IH"(2) [OF refl Some] by simp_all
    have "?d1 = dict_update inner_field_dict (get_field_proxy_dict ?p)"
      unfolding get_field_proxy_dict_def using D by (simp add: dict_update_dict_set)
    also have "\<dots> = dict_update inner_field_dict ?E"
      unfolding A by (rule dict_update_Nil_absorb)
    finally have d1: "?d1 = dict_update inner_field_dict ?E" .
    have "distinct (dict_keys ?d1)"
      unfolding d1 using "3.prems" by (rule distinct_dict_update)
    from "3.IH"(3) [OF refl Some refl this] Some d1 show ?thesis
      by (simp add: Let_def dict_update_append)
  qed
qed

lemma schema_entries_keys:
  shows "dict_keys (schema_entries mk suf dc pre) = schema_keys dc pre"
    and "dict_keys (fields_entries mk suf P fs) = fields_keys P fs"
  by (induction mk suf dc pre and mk suf P fs rule: schema_entries_fields_entries.induct)
     (auto simp: dict_keys_def split: option.splits)

lemma flat_index_keys:
  "dict_keys (get_field_proxy_dict (proxy_of mk suf dc pre)) = add_keys [] (schema_keys dc pre)"
  using flat_index_entries(1) [of mk suf dc pre]
  by (simp add: dict_keys_dict_update schema_entries_keys) (simp add: dict_keys_def)

lemma flat_index_distinct:
  "distinct (schema_keys dc pre)
     \<Longrightarrow> get_field_proxy_dict (proxy_of mk suf dc pre) = schema_entries mk suf dc pre"
  using flat_index_entries(1) [of mk suf dc pre]
    dict_update_distinct [of "[]" "schema_entries mk suf dc pre"]
  by (simp add: schema_entries_keys) (simp add: dict_keys_def)

lemma schema_keys_length:
  shows "length (schema_keys dc pre) = count_leaves dc + count_records dc"
    and "length (fields_keys P fs) = count_leaves_fields fs + count_records_fields fs"
  by (induction dc pre and P fs rule: schema_keys_fields_keys.induct)
     (auto split: option.splits)

lemma state_proxies_eq:
  "state_proxies lib dc st ns state_encoder =
     (case run_handlers (proxy_handler (chosen_encoder lib state_encoder)) (schema_leaves dc ns) st of
        (st', Inl e) \<Rightarrow> (st', Inl e)
      | (st', Inr u) \<Rightarrow>
          (st', Inr (proxy_of mk_proxy_field ''__Proxy'' dc ns,
                     proxy_of mk_name_field ''__ProxyName'' dc ns)))"
  by (simp add: state_proxies_def state_proxy_eq state_names_proxy_eq
      split: prod.splits sum.splits)

lemma state_proxies_result:
  assumes "state_proxies lib dc st ns state_encoder = (st', Inr (data, name))"
  shows "data = proxy_of mk_proxy_field ''__Proxy'' dc ns"
    and "name = proxy_of mk_name_field ''__ProxyName'' dc ns"
  using assms by (auto simp: state_proxies_eq split: prod.splits sum.splits)

lemma length_dict_keys: "length d = length (dict_keys d)"
  by (simp add: dict_keys_def)

text \<open>
  C5 (as amended). For every schema whose derived keys are pairwise distinct, the
  flat field index of the root proxy (of the value-proxy and of the name-proxy)
  has exactly the keys of the schema, in the order of construction: one entry per
  leaf field under its derived key and one per record node, the root included,
  under its synthetic key. Its size is the number of leaves plus the number of
  record nodes.
\<close>

theorem flat_index_complete:
  assumes "state_proxies lib dc st ns state_encoder = (st', Inr (data, name))"
    and "distinct (schema_keys dc ns)"
  shows "dict_keys (get_field_proxy_dict data) = schema_keys dc ns
       \<and> dict_keys (get_field_proxy_dict name) = schema_keys dc ns
       \<and> length (get_field_proxy_dict data) = count_leaves dc + count_records dc
       \<and> length (get_field_proxy_dict name) = count_leaves dc + count_records dc"
proof -
  have "add_keys [] (schema_keys dc ns) = schema_keys dc ns"
    using add_keys_distinct [of "[]" "schema_keys dc ns"] assms(2) by simp
  then show ?thesis
    using state_proxies_result [OF assms(1)]
    by (simp add: flat_index_keys length_dict_keys schema_keys_length)
qed

lemmas schema_eval =
  MyData_def MyBiggerData_def Inner_def Outer_def node_key_def derived_key_def
  add_key_def

theorem flat_index_complete_witness:
  "distinct (schema_keys MyBiggerData [])
   \<and> (case state_proxies example_lib MyBiggerData Map.empty [] None of
         (st', Inl e) \<Rightarrow> False
       | (st', Inr (data, name)) \<Rightarrow>
           dict_keys (get_field_proxy_dict data) =
             [''MyBiggerData__my_other_data__MyData__a'',
              ''MyBiggerData__my_other_data__MyData__b'',
              ''MyBiggerData__my_other_data__MyData'',
              ''MyBiggerData__c'', ''MyBiggerData'']
           \<and> length (get_field_proxy_dict name) = 5)"
proof -
  obtain st' data name where
    sp: "state_proxies example_lib MyBiggerData Map.empty [] None = (st', Inr (data, name))"
    by (simp add: state_proxies_eq schema_eval proxy_handler_def chosen_encoder_def
        ProxyField_init_def default_encoder_def CollectionEncoderDecoder_def
        DefaultEncoderDecoder_def Let_def)
  have d: "distinct (schema_keys MyBiggerData [])"
    by (simp add: schema_eval)
  show ?thesis
    using flat_index_complete [OF sp d] d sp
    by (simp add: schema_eval)
qed

text \<open>
  The claim as stated fails when two derived keys coincide: \<^verbatim>\<open>Outer\<close> has three
  leaves and two record nodes, and its flat field index has three entries.
\<close>

theorem flat_index_size_counterexample:
  "(case state_names_proxy Outer [] of
      Inl e \<Rightarrow> False
    | Inr name \<Rightarrow>
        length (get_field_proxy_dict name) = 3
        \<and> count_leaves Outer + count_records Outer = 5)"
  by (simp add: state_names_proxy_eq length_dict_keys flat_index_keys schema_eval
      del: proxy_of.simps)

section \<open>The reactive keys of a binding\<close>

lemma react_keys_loop_tokens:
  "list_all2 names_token keys specs
     \<Longrightarrow> react_keys_loop keys acc = acc @ concat (map token_keys specs)"
proof (induction keys specs arbitrary: acc rule: list_all2_induct)
  case Nil
  then show ?case by simp
next
  case (Cons k keys t specs)
  show ?case
  proof (cases t)
    case (Inl s)
    with Cons show ?thesis by simp
  next
    case (Inr b)
    obtain dc pre where b: "b = (dc, pre)" by (cases b)
    from Cons.hyps(1) Inr b
    have k: "k = ProxyKey (proxy_of mk_name_field ''__ProxyName'' dc pre)"
      by (simp add: state_names_proxy_eq)
    show ?thesis
      using Cons.IH Inr b k by (simp add: flat_index_keys del: proxy_of.simps)
  qed
qed

text \<open>
  C6 (as amended). For every sequence of tokens taken from name-proxies, the
  reactive keys are the concatenation, in input order, of: for a leaf token, that
  key; for a sub-record token, the keys of its whole subtree in construction
  order (for each field in declaration order the key of a leaf or, for a nested
  record, the keys of its subtree; then the record's own synthetic key), each key
  once, at its first occurrence. The synthetic keys of nested records are part of
  the list.
\<close>

theorem reactive_keys_of_tokens:
  assumes "list_all2 names_token keys specs"
  shows "get_reactive_state_id_keys keys = concat (map token_keys specs)"
  using react_keys_loop_tokens [OF assms, of "[]"]
  by (simp add: get_reactive_state_id_keys_def)

lemma names_proxy_attr_MyBiggerData:
  "map_of (proxy_namespace (proxy_of mk_name_field ''__ProxyName'' MyBiggerData []))
      ''my_other_data''
     = Some (SubProxy (proxy_of mk_name_field ''__ProxyName'' MyData
               ''MyBiggerData__my_other_data''))"
  by (simp add: schema_eval mk_name_field_def Let_def)

theorem reactive_keys_of_tokens_witness:
  "(case state_names_proxy MyBiggerData [] of
      Inl e \<Rightarrow> False
    | Inr name \<Rightarrow>
        (case map_of (proxy_namespace name) ''my_other_data'' of
           Some (SubProxy q) \<Rightarrow>
             list_all2 names_token [ProxyKey q, StrKey ''MyBiggerData__c'']
               [Inr (MyData, ''MyBiggerData__my_other_data''), Inl ''MyBiggerData__c'']
             \<and> get_reactive_state_id_keys [ProxyKey q, StrKey ''MyBiggerData__c''] =
                 [''MyBiggerData__my_other_data__MyData__a'',
                  ''MyBiggerData__my_other_data__MyData__b'',
                  ''MyBiggerData__my_other_data__MyData'',
                  ''MyBiggerData__c'']
         | _ \<Rightarrow> False))"
proof -
  let ?q = "proxy_of mk_name_field ''__ProxyName'' MyData ''MyBiggerData__my_other_data''"
  let ?keys = "[ProxyKey ?q, StrKey ''MyBiggerData__c'']"
  let ?specs = "[Inr (MyData, ''MyBiggerData__my_other_data''), Inl ''MyBiggerData__c'']"
  have t: "list_all2 names_token ?keys ?specs"
    by (simp add: state_names_proxy_eq del: proxy_of.simps)
  have "get_reactive_state_id_keys ?keys = concat (map token_keys ?specs)"
    using t by (rule reactive_keys_of_tokens)
  also have "\<dots> = [''MyBiggerData__my_other_data__MyData__a'',
                  ''MyBiggerData__my_other_data__MyData__b'',
                  ''MyBiggerData__my_other_data__MyData'',
                  ''MyBiggerData__c'']"
    by (simp add: schema_eval)
  finally show ?thesis
    using t by (simp add: state_names_proxy_eq names_proxy_attr_MyBiggerData del: proxy_of.simps)
qed

text \<open>
  The claim as stated fails for a token with a nested record: bound to the whole
  name-proxy of \<^verbatim>\<open>MyBiggerData\<close>, the reactive keys hold the synthetic key of the
  nested \<^verbatim>\<open>MyData\<close> node between the leaf keys, which "all descendant leaf keys
  followed by its own synthetic key" does not list.
\<close>

theorem reactive_keys_nested_counterexample:
  "(case state_names_proxy MyBiggerData [] of
      Inl e \<Rightarrow> False
    | Inr name \<Rightarrow>
        get_reactive_state_id_keys [ProxyKey name] =
          [''MyBiggerData__my_other_data__MyData__a'',
           ''MyBiggerData__my_other_data__MyData__b'',
           ''MyBiggerData__my_other_data__MyData'',
           ''MyBiggerData__c'', ''MyBiggerData'']
        \<and> leaves_then_own_key (Inr (MyBiggerData, [])) =
          [''MyBiggerData__my_other_data__MyData__a'',
           ''MyBiggerData__my_other_data__MyData__b'',
           ''MyBiggerData__c'', ''MyBiggerData''])"
proof -
  let ?name = "proxy_of mk_name_field ''__ProxyName'' MyBiggerData []"
  have "get_reactive_state_id_keys [ProxyKey ?name] = add_keys [] (schema_keys MyBiggerData [])"
    by (simp add: get_reactive_state_id_keys_def flat_index_keys del: proxy_of.simps)
  also have "\<dots> = [''MyBiggerData__my_other_data__MyData__a'',
           ''MyBiggerData__my_other_data__MyData__b'',
           ''MyBiggerData__my_other_data__MyData'',
           ''MyBiggerData__c'', ''MyBiggerData'']"
    by (simp add: schema_eval)
  finally have a: "get_reactive_state_id_keys [ProxyKey ?name] =
          [''MyBiggerData__my_other_data__MyData__a'',
           ''MyBiggerData__my_other_data__MyData__b'',
           ''MyBiggerData__my_other_data__MyData'',
           ''MyBiggerData__c'', ''MyBiggerData'']" .
  have b: "leaves_then_own_key (Inr (MyBiggerData, [])) =
          [''MyBiggerData__my_other_data__MyData__a'',
           ''MyBiggerData__my_other_data__MyData__b'',
           ''MyBiggerData__c'', ''MyBiggerData'']"
    by (simp add: schema_eval)
  show ?thesis
    using a b by (simp add: state_names_proxy_eq del: proxy_of.simps)
qed

section \<open>Derived keys and the mirror of the two proxies\<close>

lemma map_dict_set:
  "map (map_prod (\<lambda>n. n) F) (dict_set ns n a) = dict_set (map (map_prod (\<lambda>n. n) F) ns) n (F a)"
  by (induction ns) auto

lemma proxy_ids_schema:
  shows "(\<forall>sid f. g (mk sid f) = sid) \<Longrightarrow> proxy_ids g (proxy_of mk suf dc pre) = schema_ids dc pre"
    and "(\<forall>sid f. g (mk sid f) = sid) \<Longrightarrow>
         \<forall>pre cn. P = node_key pre cn \<longrightarrow>
           map (map_prod id (attr_ids g)) (fst (fields_of mk suf fs P ns d))
             = fields_ids pre cn fs (map (map_prod id (attr_ids g)) ns)"
proof (induction mk suf dc pre and mk suf fs P ns d rule: proxy_of_fields_of.induct)
  case (1 mk cls_suffix class_name fs prefix)
  from "1.IH" [OF refl "1.prems", rule_format, OF refl] show ?case
    by (auto simp: Let_def split: prod.splits)
next
  case (2 mk cls_suffix prefix namespace inner_field_dict)
  then show ?case by simp
next
  case (3 mk cls_suffix f fs prefix namespace inner_field_dict)
  let ?sid = "prefix @ ''__'' @ f_name f"
  show ?case
  proof (cases "is_dataclass (f_type f)")
    case None
    from "3.IH"(1) [OF refl None refl "3.prems"] None "3.prems" show ?thesis
      by (auto simp: Let_def map_dict_set derived_key_def)
  next
    case (Some dc)
    have p: "proxy_ids g (proxy_of mk cls_suffix dc ?sid) = schema_ids dc ?sid"
      using "3.IH"(2) [OF refl Some "3.prems"] .
    from "3.IH"(3) [OF refl Some refl "3.prems"] Some p show ?thesis
      by (auto simp: Let_def map_dict_set derived_key_def simp del: proxy_of.simps)
  qed
qed

lemma build_proxy_cls_result:
  assumes "returns_leaf h mk"
    and "build_proxy_cls dc prefix h suf pfd st = (st', Inr (p, pfd'))"
  shows "p = proxy_of mk suf dc prefix"
  using assms(2) unfolding build_proxy_cls_pure(1) [OF assms(1)]
  by (auto split: prod.splits sum.splits)

text \<open>
  C1 (as amended). For every schema, prefix and handler, the proxy tree that
  \<^verbatim>\<open>_build_proxy_cls\<close> returns has at every position the key of the formula
  \<open>derived_key\<close>: a field \<^verbatim>\<open>f\<close> of a record \<^verbatim>\<open>T\<close> built with a non-empty prefix has
  the key \<^verbatim>\<open>prefix__T__f\<close>, with an empty prefix (the default) it has the key
  \<^verbatim>\<open>T__f\<close>, without leading separator; the key of a field that is itself a record
  is the prefix of that record's fields.
\<close>

theorem derived_keys_of_built_proxy:
  assumes "returns_leaf h mk"
    and "\<forall>state_id f. leaf_id (mk state_id f) = state_id"
    and "build_proxy_cls dc prefix h cls_suffix pfd st = (st', Inr (p, pfd'))"
  shows "proxy_ids leaf_id p = schema_ids dc prefix"
  using proxy_ids_schema(1) [where g = leaf_id and mk = mk, OF assms(2)]
    build_proxy_cls_result [OF assms(1,3)]
  by simp

lemma pf_state_id_mk [simp]: "pf_state_id (mk_proxy_field sid f) = sid"
  by (simp add: mk_proxy_field_def)

lemma nf_state_id_mk [simp]: "nf_state_id (mk_name_field sid f) = sid"
  by (simp add: mk_name_field_def)

theorem derived_keys_of_built_proxy_witness:
  "returns_leaf (\<lambda>state_id f (st :: unit). (st, Inr (NameField state_id))) mk_name_field
   \<and> (\<forall>state_id f. nf_state_id (mk_name_field state_id f) = state_id)
   \<and> (case build_proxy_cls MyBiggerData ''ns1''
              (\<lambda>state_id f (st :: unit). (st, Inr (NameField state_id))) ''__ProxyName'' None () of
         (u, Inl e) \<Rightarrow> False
       | (u, Inr (p, d)) \<Rightarrow>
           proxy_ids nf_state_id p =
             IdNode ''ns1__MyBiggerData''
               [(''my_other_data'',
                 IdNode ''ns1__MyBiggerData__my_other_data__MyData''
                   [(''a'', IdLeaf ''ns1__MyBiggerData__my_other_data__MyData__a''),
                    (''b'', IdLeaf ''ns1__MyBiggerData__my_other_data__MyData__b'')]),
                (''c'', IdLeaf ''ns1__MyBiggerData__c'')])"
proof -
  let ?h = "(\<lambda>state_id f st. (st, Inr (NameField state_id))) :: (unit, name_field) handler"
  let ?p = "proxy_of mk_name_field ''__ProxyName'' MyBiggerData ''ns1''"
  have r: "returns_leaf ?h mk_name_field"
    by (rule name_handler_returns_leaf)
  have g: "\<forall>state_id f. nf_state_id (mk_name_field state_id f) = state_id"
    by simp
  have b: "build_proxy_cls MyBiggerData ''ns1'' ?h ''__ProxyName'' None () = ((), Inr (?p, None))"
    using run_name_handlers [of "schema_leaves MyBiggerData ''ns1''" "()"]
    by (subst build_proxy_cls_pure(1)[OF name_handler_returns_leaf]) simp
  have "proxy_ids nf_state_id ?p = schema_ids MyBiggerData ''ns1''"
    using r g b by (rule derived_keys_of_built_proxy)
  also have "\<dots> = IdNode ''ns1__MyBiggerData''
               [(''my_other_data'',
                 IdNode ''ns1__MyBiggerData__my_other_data__MyData''
                   [(''a'', IdLeaf ''ns1__MyBiggerData__my_other_data__MyData__a''),
                    (''b'', IdLeaf ''ns1__MyBiggerData__my_other_data__MyData__b'')]),
                (''c'', IdLeaf ''ns1__MyBiggerData__c'')]"
    by (simp add: schema_eval)
  finally show ?thesis
    using r b by (simp del: proxy_of.simps)
qed

text \<open>
  The claim as stated fails for the empty prefix: the leaf \<^verbatim>\<open>a\<close> of \<^verbatim>\<open>MyData\<close> built
  with the default namespace has the key \<^verbatim>\<open>MyData__a\<close>, and the formula
  \<^verbatim>\<open>prefix + "__" + TypeName + "__" + fieldName\<close> gives \<^verbatim>\<open>__MyData__a\<close>.
\<close>

theorem derived_key_empty_prefix_counterexample:
  "(case state_names_proxy MyData [] of
      Inl e \<Rightarrow> False
    | Inr name \<Rightarrow>
        proxy_ids nf_state_id name =
          IdNode ''MyData'' [(''a'', IdLeaf ''MyData__a''), (''b'', IdLeaf ''MyData__b'')]
        \<and> spec_derived_key [] ''MyData'' ''a'' = ''__MyData__a'')"
proof -
  have "proxy_ids nf_state_id (proxy_of mk_name_field ''__ProxyName'' MyData [])
      = schema_ids MyData []"
    by (rule proxy_ids_schema(1)) simp
  also have "\<dots> = IdNode ''MyData'' [(''a'', IdLeaf ''MyData__a''), (''b'', IdLeaf ''MyData__b'')]"
    by (simp add: schema_eval)
  finally show ?thesis
    by (simp add: state_names_proxy_eq spec_derived_key_def del: proxy_of.simps)
qed

lemma state_proxy_result:
  assumes "state_proxy lib dc st ns state_encoder = (st', Inr data)"
  shows "data = proxy_of mk_proxy_field ''__Proxy'' dc ns"
  using assms by (auto simp: state_proxy_eq split: prod.splits sum.splits)

text \<open>
  C4. For every schema and namespace, the value-proxy built by \<^verbatim>\<open>state_proxy\<close> and
  the name-proxy built by \<^verbatim>\<open>state_names_proxy\<close> are mirrored: position by position
  (attribute name by attribute name, at every depth) the state id of the
  value-proxy's leaf is the string of the name-proxy's leaf and the two record
  nodes carry the same synthetic key; their flat field indexes have the same keys
  in the same order.
\<close>

theorem proxies_mirrored:
  assumes "state_proxy lib dc st ns state_encoder = (st', Inr data)"
    and "state_names_proxy dc ns = Inr name"
  shows "proxy_ids pf_state_id data = proxy_ids nf_state_id name
       \<and> dict_keys (get_field_proxy_dict data) = dict_keys (get_field_proxy_dict name)"
proof -
  have d: "data = proxy_of mk_proxy_field ''__Proxy'' dc ns"
    using assms(1) by (rule state_proxy_result)
  have n: "name = proxy_of mk_name_field ''__ProxyName'' dc ns"
    using assms(2) by (simp add: state_names_proxy_eq)
  have "proxy_ids pf_state_id data = schema_ids dc ns"
    unfolding d by (rule proxy_ids_schema(1)) simp
  moreover have "proxy_ids nf_state_id name = schema_ids dc ns"
    unfolding n by (rule proxy_ids_schema(1)) simp
  ultimately show ?thesis
    unfolding d n by (simp add: flat_index_keys del: proxy_of.simps)
qed

theorem proxies_mirrored_witness:
  "(case state_proxy example_lib MyBiggerData Map.empty ''ns1'' None of
      (st', Inl e) \<Rightarrow> False
    | (st', Inr data) \<Rightarrow>
        (case state_names_proxy MyBiggerData ''ns1'' of
           Inl e \<Rightarrow> False
         | Inr name \<Rightarrow>
             proxy_ids pf_state_id data = proxy_ids nf_state_id name
             \<and> dict_keys (get_field_proxy_dict data) = dict_keys (get_field_proxy_dict name)
             \<and> dict_keys (get_field_proxy_dict name) =
                 [''ns1__MyBiggerData__my_other_data__MyData__a'',
                  ''ns1__MyBiggerData__my_other_data__MyData__b'',
                  ''ns1__MyBiggerData__my_other_data__MyData'',
                  ''ns1__MyBiggerData__c'', ''ns1__MyBiggerData'']))"
proof -
  let ?data = "proxy_of mk_proxy_field ''__Proxy'' MyBiggerData ''ns1''"
  let ?name = "proxy_of mk_name_field ''__ProxyName'' MyBiggerData ''ns1''"
  obtain st' where sp: "state_proxy example_lib MyBiggerData Map.empty ''ns1'' None = (st', Inr ?data)"
    by (simp add: state_proxy_eq schema_eval proxy_handler_def chosen_encoder_def
        ProxyField_init_def default_encoder_def CollectionEncoderDecoder_def
        DefaultEncoderDecoder_def Let_def del: proxy_of.simps)
  have np: "state_names_proxy MyBiggerData ''ns1'' = Inr ?name"
    by (rule state_names_proxy_eq)
  have k: "dict_keys (get_field_proxy_dict ?name) =
                 [''ns1__MyBiggerData__my_other_data__MyData__a'',
                  ''ns1__MyBiggerData__my_other_data__MyData__b'',
                  ''ns1__MyBiggerData__my_other_data__MyData'',
                  ''ns1__MyBiggerData__c'', ''ns1__MyBiggerData'']"
    by (simp add: flat_index_keys schema_eval del: proxy_of.simps)
  show ?thesis
    using proxies_mirrored [OF sp np] sp np k by (simp del: proxy_of.simps)
qed

section \<open>Positions of a proxy tree and the flat field index\<close>

lemma map_of_dict_set: "map_of (dict_set ns n a) = (map_of ns)(n \<mapsto> a)"
  by (induction ns) (auto simp: fun_eq_iff)

lemma fields_of_namespace:
  "map_of (fst (fields_of mk suf fs P ns d))
     = map_of ns ++ map_of (rev (map (\<lambda>f. (f_name f, field_attr mk suf P f)) fs))"
proof (induction fs arbitrary: ns d)
  case Nil
  then show ?case by simp
next
  case (Cons f fs)
  have step: "map_of (fst (fields_of mk suf (f # fs) P ns d))
      = map_of (dict_set ns (f_name f) (field_attr mk suf P f))
          ++ map_of (rev (map (\<lambda>f. (f_name f, field_attr mk suf P f)) fs))"
    by (cases "is_dataclass (f_type f)")
       (simp_all add: Cons.IH Let_def field_attr_def del: proxy_of.simps)
  show ?case
    unfolding step map_of_dict_set
    by (auto simp: fun_eq_iff map_add_def split: option.splits)
qed

lemma map_of_rev_map_fields:
  "map_of (rev (map (\<lambda>f. (f_name f, G f)) fs)) n
     = map_option G (map_of (rev (map (\<lambda>f. (f_name f, f)) fs)) n)"
  by (induction fs) (auto simp: map_add_def split: option.splits)

lemma proxy_of_lookup:
  "map_of (proxy_namespace (proxy_of mk suf dc pre)) n
     = map_option (field_attr mk suf (node_key pre (dc_name dc)))
         (map_of (rev (map (\<lambda>f. (f_name f, f)) (dc_fields dc))) n)"
proof (cases dc)
  case (Dataclass cn fs)
  have "map_of (proxy_namespace (proxy_of mk suf (Dataclass cn fs) pre)) n
      = map_of (rev (map (\<lambda>f. (f_name f, field_attr mk suf (node_key pre cn) f)) fs)) n"
    unfolding proxy_of_namespace fields_of_namespace by simp
  also have "\<dots> = map_option (field_attr mk suf (node_key pre cn))
      (map_of (rev (map (\<lambda>f. (f_name f, f)) fs)) n)"
    by (rule map_of_rev_map_fields)
  finally show ?thesis
    unfolding Dataclass by simp
qed

lemma field_in_fields:
  "map_of (rev (map (\<lambda>f. (f_name f, f)) fs)) n = Some f \<Longrightarrow> f \<in> set fs \<and> f_name f = n"
  by (auto dest!: map_of_SomeD)

lemma attr_at_proxy_of:
  "attr_at (proxy_of mk suf dc pre) path = map_option (realize mk suf) (schema_at path dc pre)"
proof (induction path arbitrary: dc pre)
  case Nil
  then show ?case by simp
next
  case (Cons n path)
  show ?case
  proof (cases "map_of (rev (map (\<lambda>f. (f_name f, f)) (dc_fields dc))) n")
    case None
    then show ?thesis by (simp add: proxy_of_lookup del: proxy_of.simps)
  next
    case (Some f)
    then have fn: "f_name f = n" by (auto dest: field_in_fields)
    show ?thesis
    proof (cases "is_dataclass (f_type f)")
      case None
      with Some fn show ?thesis
        by (simp add: proxy_of_lookup field_attr_def derived_key_def del: proxy_of.simps)
    next
      case dc': (Some dc')
      with Some fn show ?thesis
        by (simp add: proxy_of_lookup field_attr_def derived_key_def Cons.IH del: proxy_of.simps)
    qed
  qed
qed


lemma nested_entries_in_fields:
  "f \<in> set fs \<Longrightarrow> is_dataclass (f_type f) = Some dc
     \<Longrightarrow> set (schema_entries mk suf dc (P @ ''__'' @ f_name f))
           \<subseteq> set (fields_entries mk suf P fs)"
  by (induction fs) (auto split: option.splits)

lemma nested_keys_distinct:
  "f \<in> set fs \<Longrightarrow> is_dataclass (f_type f) = Some dc \<Longrightarrow> distinct (fields_keys P fs)
     \<Longrightarrow> distinct (schema_keys dc (P @ ''__'' @ f_name f))"
  by (induction fs) (auto split: option.splits)

lemma fields_entries_in_schema:
  "set (fields_entries mk suf (node_key pre (dc_name dc)) (dc_fields dc))
     \<subseteq> set (schema_entries mk suf dc pre)"
  by (cases dc) auto

lemma fields_keys_distinct:
  "distinct (schema_keys dc pre) \<Longrightarrow> distinct (fields_keys (node_key pre (dc_name dc)) (dc_fields dc))"
  by (cases dc) auto



text \<open>
  A nested record node: its entries are among the entries of the root, and its
  keys are distinct when those of the root are.
\<close>

lemma nested_node:
  "schema_at path dc pre = Some (Inr (dc', pre'))
     \<Longrightarrow> set (schema_entries mk suf dc' pre') \<subseteq> set (schema_entries mk suf dc pre)
         \<and> (distinct (schema_keys dc pre) \<longrightarrow> distinct (schema_keys dc' pre'))"
proof (induction path arbitrary: dc pre)
  case Nil
  then show ?case by simp
next
  case (Cons n path)
  from Cons.prems obtain f where
    f: "map_of (rev (map (\<lambda>f. (f_name f, f)) (dc_fields dc))) n = Some f"
    by (auto split: option.splits)
  then have fin: "f \<in> set (dc_fields dc)" and fn: "f_name f = n"
    by (auto dest: field_in_fields)
  let ?P = "node_key pre (dc_name dc)"
  have dk: "derived_key pre (dc_name dc) n = ?P @ ''__'' @ f_name f"
    by (simp add: derived_key_def fn)
  from Cons.prems f obtain dc1 where dc1: "is_dataclass (f_type f) = Some dc1"
    by (cases "is_dataclass (f_type f)") (auto split: if_splits)
  with Cons.prems f dk have "schema_at path dc1 (?P @ ''__'' @ f_name f) = Some (Inr (dc', pre'))"
    by simp
  then have IH: "set (schema_entries mk suf dc' pre')
        \<subseteq> set (schema_entries mk suf dc1 (?P @ ''__'' @ f_name f))
      \<and> (distinct (schema_keys dc1 (?P @ ''__'' @ f_name f)) \<longrightarrow> distinct (schema_keys dc' pre'))"
    by (rule Cons.IH)
  have "set (schema_entries mk suf dc' pre') \<subseteq> set (schema_entries mk suf dc pre)"
    using IH nested_entries_in_fields [OF fin dc1, of mk suf ?P]
      fields_entries_in_schema [of mk suf pre dc]
    by blast
  moreover have "distinct (schema_keys dc' pre')" if "distinct (schema_keys dc pre)"
    using IH nested_keys_distinct [OF fin dc1 fields_keys_distinct [OF that]] by simp
  ultimately show ?case by simp
qed

lemma map_of_entries:
  "distinct (dict_keys d) \<Longrightarrow> (k, a) \<in> set d \<Longrightarrow> map_of d k = Some a"
  by (simp add: dict_keys_def)


lemma realize_SubProxy:
  "map_option (realize mk suf) (schema_at path dc pre) = Some (SubProxy q)
     \<Longrightarrow> \<exists>dc' pre'. schema_at path dc pre = Some (Inr (dc', pre')) \<and> q = proxy_of mk suf dc' pre'"
proof -
  assume a: "map_option (realize mk suf) (schema_at path dc pre) = Some (SubProxy q)"
  then obtain x where x: "schema_at path dc pre = Some x" "realize mk suf x = SubProxy q"
    by (cases "schema_at path dc pre") auto
  show ?thesis
  proof (cases x)
    case (Inl lf)
    with x(2) show ?thesis by (cases lf) simp
  next
    case (Inr nd)
    with x show ?thesis by (cases nd) (simp del: proxy_of.simps)
  qed
qed

lemma set_flat_index_keys:
  "set (dict_keys (get_field_proxy_dict (proxy_of mk suf dc pre)))
     = fst ` set (schema_entries mk suf dc pre)"
proof -
  have "set (dict_keys (get_field_proxy_dict (proxy_of mk suf dc pre))) = set (schema_keys dc pre)"
    by (simp add: flat_index_keys set_add_keys del: proxy_of.simps)
  also have "\<dots> = set (dict_keys (schema_entries mk suf dc pre))"
    by (simp add: schema_entries_keys(1) [of mk suf dc pre])
  finally show ?thesis
    by (simp add: dict_keys_def)
qed

lemma dict_get_entries:
  assumes "distinct (dict_keys d)"
  shows "dict_get d k = Inr a \<longleftrightarrow> (k, a) \<in> set d"
proof -
  have "map_of d k = Some a \<longleftrightarrow> (k, a) \<in> set d"
    using assms by (simp add: dict_keys_def)
  then show ?thesis
    by (cases "map_of d k") (auto simp: dict_get_def)
qed

lemma node_contained:
  assumes "schema_at path dc pre = Some (Inr (dc', pre'))"
  shows "set (dict_keys (get_field_proxy_dict (proxy_of mk suf dc' pre')))
           \<subseteq> set (dict_keys (get_field_proxy_dict (proxy_of mk suf dc pre)))"
    and "distinct (schema_keys dc pre)
           \<Longrightarrow> dict_get (get_field_proxy_dict (proxy_of mk suf dc' pre')) k = Inr a
           \<Longrightarrow> dict_get (get_field_proxy_dict (proxy_of mk suf dc pre)) k = Inr a"
proof -
  have sub: "set (schema_entries mk suf dc' pre') \<subseteq> set (schema_entries mk suf dc pre)"
    using nested_node [OF assms, of mk suf] by simp
  then show "set (dict_keys (get_field_proxy_dict (proxy_of mk suf dc' pre')))
           \<subseteq> set (dict_keys (get_field_proxy_dict (proxy_of mk suf dc pre)))"
    unfolding set_flat_index_keys by blast
  assume d: "distinct (schema_keys dc pre)"
    and g: "dict_get (get_field_proxy_dict (proxy_of mk suf dc' pre')) k = Inr a"
  have d': "distinct (schema_keys dc' pre')"
    using nested_node [OF assms, of mk suf] d by simp
  have "(k, a) \<in> set (schema_entries mk suf dc' pre')"
    using g d' by (simp add: flat_index_distinct dict_get_entries schema_entries_keys
        del: proxy_of.simps)
  with sub have "(k, a) \<in> set (schema_entries mk suf dc pre)" by blast
  then show "dict_get (get_field_proxy_dict (proxy_of mk suf dc pre)) k = Inr a"
    using d by (simp add: flat_index_distinct dict_get_entries schema_entries_keys
        del: proxy_of.simps)
qed

text \<open>
  C10 (as amended). In every proxy tree built by \<^verbatim>\<open>_build_proxy_cls\<close>, for a node
  \<open>parent\<close> of the tree (the root or a nested sub-record proxy at any depth) and a
  sub-record proxy \<open>q\<close> below it, every key of the flat field index of \<open>q\<close> is a key
  of the flat field index of \<open>parent\<close>. When the derived keys of the schema are
  pairwise distinct, the key maps in the index of \<open>parent\<close> to the accessor that it
  maps to in the index of \<open>q\<close>.
\<close>

theorem nested_index_contained:
  assumes "returns_leaf h mk"
    and "build_proxy_cls dc prefix h cls_suffix pfd st = (st', Inr (rt, pfd'))"
    and "attr_at rt path = Some (SubProxy parent)"
    and "attr_at parent path' = Some (SubProxy q)"
  shows "set (dict_keys (get_field_proxy_dict q)) \<subseteq> set (dict_keys (get_field_proxy_dict parent))
       \<and> (distinct (schema_keys dc prefix) \<longrightarrow>
            (\<forall>k a. dict_get (get_field_proxy_dict q) k = Inr a
                     \<longrightarrow> dict_get (get_field_proxy_dict parent) k = Inr a))"
proof -
  have rt: "rt = proxy_of mk cls_suffix dc prefix"
    using assms(1,2) by (rule build_proxy_cls_result)
  from assms(3) have "map_option (realize mk cls_suffix) (schema_at path dc prefix)
      = Some (SubProxy parent)"
    unfolding rt attr_at_proxy_of .
  from realize_SubProxy [OF this] obtain dc1 pre1 where
    p1: "schema_at path dc prefix = Some (Inr (dc1, pre1))"
    and parent: "parent = proxy_of mk cls_suffix dc1 pre1"
    by blast
  from assms(4) have "map_option (realize mk cls_suffix) (schema_at path' dc1 pre1)
      = Some (SubProxy q)"
    unfolding parent attr_at_proxy_of .
  from realize_SubProxy [OF this] obtain dc2 pre2 where
    p2: "schema_at path' dc1 pre1 = Some (Inr (dc2, pre2))"
    and q: "q = proxy_of mk cls_suffix dc2 pre2"
    by blast
  have d1: "distinct (schema_keys dc1 pre1)" if "distinct (schema_keys dc prefix)"
    using nested_node [OF p1, of mk cls_suffix] that by simp
  show ?thesis
    unfolding parent q
    using node_contained(1) [OF p2, of mk cls_suffix] node_contained(2) [OF p2 d1, of mk cls_suffix]
    by blast
qed

theorem nested_index_contained_witness:
  "returns_leaf (\<lambda>state_id f (st :: unit). (st, Inr (NameField state_id))) mk_name_field
   \<and> distinct (schema_keys MyBiggerData ''ns1'')
   \<and> (case build_proxy_cls MyBiggerData ''ns1''
              (\<lambda>state_id f (st :: unit). (st, Inr (NameField state_id))) ''__ProxyName'' None () of
         (u, Inl e) \<Rightarrow> False
       | (u, Inr (rt, d)) \<Rightarrow>
           (case attr_at rt [''my_other_data''] of
              Some (SubProxy q) \<Rightarrow>
                attr_at rt [] = Some (SubProxy rt)
                \<and> set (dict_keys (get_field_proxy_dict q))
                    \<subseteq> set (dict_keys (get_field_proxy_dict rt))
                \<and> dict_get (get_field_proxy_dict q) ''ns1__MyBiggerData__my_other_data__MyData__a''
                    = Inr (LeafField (NameField ''ns1__MyBiggerData__my_other_data__MyData__a''))
                \<and> dict_get (get_field_proxy_dict rt)
                      ''ns1__MyBiggerData__my_other_data__MyData__a''
                    = Inr (LeafField (NameField ''ns1__MyBiggerData__my_other_data__MyData__a''))
            | _ \<Rightarrow> False))"
proof -
  let ?h = "(\<lambda>state_id f st. (st, Inr (NameField state_id))) :: (unit, name_field) handler"
  let ?root = "proxy_of mk_name_field ''__ProxyName'' MyBiggerData ''ns1''"
  let ?q = "proxy_of mk_name_field ''__ProxyName'' MyData ''ns1__MyBiggerData__my_other_data''"
  let ?k = "''ns1__MyBiggerData__my_other_data__MyData__a''"
  have r: "returns_leaf ?h mk_name_field"
    by (rule name_handler_returns_leaf)
  have b: "build_proxy_cls MyBiggerData ''ns1'' ?h ''__ProxyName'' None () = ((), Inr (?root, None))"
    using run_name_handlers [of "schema_leaves MyBiggerData ''ns1''" "()"]
    by (subst build_proxy_cls_pure(1)[OF name_handler_returns_leaf]) simp
  have p0: "attr_at ?root [] = Some (SubProxy ?root)"
    by (simp del: proxy_of.simps)
  have p1: "attr_at ?root [''my_other_data''] = Some (SubProxy ?q)"
    unfolding attr_at_proxy_of by (simp add: schema_eval del: proxy_of.simps)
  have d: "distinct (schema_keys MyBiggerData ''ns1'')"
    by (simp add: schema_eval)
  have g: "dict_get (get_field_proxy_dict ?q) ?k = Inr (LeafField (NameField ?k))"
    by (simp add: flat_index_entries(1) dict_get_def schema_eval mk_name_field_def
        del: proxy_of.simps)
  have c: "set (dict_keys (get_field_proxy_dict ?q)) \<subseteq> set (dict_keys (get_field_proxy_dict ?root))
       \<and> (distinct (schema_keys MyBiggerData ''ns1'') \<longrightarrow>
            (\<forall>k a. dict_get (get_field_proxy_dict ?q) k = Inr a
                     \<longrightarrow> dict_get (get_field_proxy_dict ?root) k = Inr a))"
    using r b p0 p1 by (rule nested_index_contained)
  then have "dict_get (get_field_proxy_dict ?root) ?k = Inr (LeafField (NameField ?k))"
    using d g by blast
  with c r d b p0 p1 g show ?thesis
    by (simp del: proxy_of.simps)
qed

text \<open>
  The claim as stated fails when two derived keys coincide. In the tree of
  \<^verbatim>\<open>Outer\<close> the index of the nested proxy \<^verbatim>\<open>a\<close> maps its own key \<^verbatim>\<open>Outer__a__Inner\<close> to
  the nested proxy; the index of the root maps this key to the leaf of the field
  \<^verbatim>\<open>a__Inner\<close>, which was stored later under the same key.
\<close>

theorem nested_index_accessor_counterexample:
  "(case state_names_proxy Outer [] of
      Inl e \<Rightarrow> False
    | Inr rt \<Rightarrow>
        (case attr_at rt [''a''] of
           Some (SubProxy q) \<Rightarrow>
             dict_get (get_field_proxy_dict q) ''Outer__a__Inner'' = Inr (SubProxy q)
             \<and> dict_get (get_field_proxy_dict rt) ''Outer__a__Inner''
                 = Inr (LeafField (NameField ''Outer__a__Inner''))
         | _ \<Rightarrow> False))"
proof -
  let ?root = "proxy_of mk_name_field ''__ProxyName'' Outer []"
  let ?q = "proxy_of mk_name_field ''__ProxyName'' Inner ''Outer__a''"
  have p: "attr_at ?root [''a''] = Some (SubProxy ?q)"
    unfolding attr_at_proxy_of by (simp add: schema_eval del: proxy_of.simps)
  have a: "dict_get (get_field_proxy_dict ?q) ''Outer__a__Inner'' = Inr (SubProxy ?q)"
    by (simp add: flat_index_entries(1) dict_get_def schema_eval mk_name_field_def
        del: proxy_of.simps)
  have b: "dict_get (get_field_proxy_dict ?root) ''Outer__a__Inner''
      = Inr (LeafField (NameField ''Outer__a__Inner''))"
    by (simp add: flat_index_entries(1) dict_get_def schema_eval mk_name_field_def
        del: proxy_of.simps)
  show ?thesis
    using p a b by (simp add: state_names_proxy_eq del: proxy_of.simps)
qed
section \<open>The arguments of a bound callback\<close>









section \<open>The round trip through the default codec\<close>



































end
